theory Spec2Isabelle
  imports Complex_Main "HOL-Library.AList" "HOL-Library.Code_Target_Nat"
begin

section \<open>JavaScript values\<close>

text \<open>
  A JavaScript number is a double. A finite number is modelled by the rational value of
  its decimal text, the one \<open>Number::toString\<close> prints: the shortest decimal that reads
  back as the same double, of at most 17 significant digits (the number written \<open>0.1\<close> is
  \<open>Finite (1/10)\<close>, an integer below \<open>2\<^sup>5\<^sup>3\<close> is itself). The model admits every
  rational, a superset of these decimals, with one zero: \<open>-0 < 0\<close> is false and \<open>-0\<close>
  prints as \<open>0\<close>. The three non-finite values are separate constructors. The operations
  the service applies to numbers (\<open>x < 0\<close>, \<open>Number.isInteger\<close>, \<open>Math.floor\<close>,
  \<open>=== 1\<close>) give on the decimal of a double what they give on the double (no integer
  lies between the two, and one is an integer exactly when the other is), so they are the
  rational operations.
\<close>

datatype jsnum = Finite rat | NaN | PosInf | NegInf

text \<open>
  The values the service handles: primitives, arrays and plain objects (own enumerable
  string-keyed properties, in enumeration order). A string is the list of its bytes in
  UTF-8.
\<close>

datatype jsval =
    JUndefined
  | JNull
  | JBool bool
  | JNum jsnum
  | JStr string
  | JArr "jsval list"
  | JObj "(string \<times> jsval) list"

text \<open>\<open>typeof v\<close>.\<close>

fun typeof :: "jsval \<Rightarrow> string" where
  "typeof JUndefined = ''undefined''"
| "typeof JNull = ''object''"
| "typeof (JBool b) = ''boolean''"
| "typeof (JNum n) = ''number''"
| "typeof (JStr s) = ''string''"
| "typeof (JArr xs) = ''object''"
| "typeof (JObj kvs) = ''object''"

text \<open>\<open>ToBoolean\<close>, as used by \<open>!row\<close>, \<open>x ? a : b\<close> and \<open>||\<close>.\<close>

fun truthy :: "jsval \<Rightarrow> bool" where
  "truthy JUndefined = False"
| "truthy JNull = False"
| "truthy (JBool b) = b"
| "truthy (JNum n) = (n \<noteq> NaN \<and> n \<noteq> Finite 0)"
| "truthy (JStr s) = (s \<noteq> [])"
| "truthy (JArr xs) = True"
| "truthy (JObj kvs) = True"

text \<open>
  \<open>x < 0\<close> for a number: false for \<open>NaN\<close> and \<open>+Infinity\<close>, true for \<open>-Infinity\<close>.
\<close>

fun num_lt_zero :: "jsnum \<Rightarrow> bool" where
  "num_lt_zero (Finite q) = (q < 0)"
| "num_lt_zero NaN = False"
| "num_lt_zero PosInf = False"
| "num_lt_zero NegInf = True"

text \<open>\<open>Number.isInteger(x)\<close> for a number \<open>x\<close>.\<close>

fun num_isInteger :: "jsnum \<Rightarrow> bool" where
  "num_isInteger (Finite q) = (q = of_int \<lfloor>q\<rfloor>)"
| "num_isInteger NaN = False"
| "num_isInteger PosInf = False"
| "num_isInteger NegInf = False"

text \<open>\<open>Math.floor(x)\<close>.\<close>

fun Math_floor :: "jsnum \<Rightarrow> jsnum" where
  "Math_floor (Finite q) = Finite (of_int \<lfloor>q\<rfloor>)"
| "Math_floor NaN = NaN"
| "Math_floor PosInf = PosInf"
| "Math_floor NegInf = NegInf"

text \<open>
  A value that is \<open>null\<close> or a number (\<open>None\<close> is \<open>null\<close>), as \<open>dailyQuotaDb\<close> and
  \<open>individualQuotaDb\<close> are. In \<open>x < 0\<close>, \<open>null\<close> converts to \<open>+0\<close>;
  \<open>Number.isInteger(null)\<close> is false.
\<close>

fun lt_zero :: "jsnum option \<Rightarrow> bool" where
  "lt_zero None = False"
| "lt_zero (Some n) = num_lt_zero n"

fun Number_isInteger :: "jsnum option \<Rightarrow> bool" where
  "Number_isInteger None = False"
| "Number_isInteger (Some n) = num_isInteger n"

text \<open>
  \<open>v?.name\<close> for a property name that no built-in prototype defines and that is not an
  array index: the own property of a plain object, \<open>undefined\<close> on every other value.
\<close>

fun get_property :: "jsval \<Rightarrow> string \<Rightarrow> jsval" where
  "get_property (JObj kvs) name = (case map_of kvs name of None \<Rightarrow> JUndefined | Some v \<Rightarrow> v)"
| "get_property v name = JUndefined"

section \<open>Errors and the environment\<close>

text \<open>
  What an operation can throw, by origin: \<open>Error m\<close> is \<open>new Error(m)\<close> thrown by the
  service itself (it has no \<open>code\<close> property); \<open>DriverError c m\<close> is the error object of
  the database driver, with its \<open>code\<close> and \<open>message\<close>; \<open>SyncError c m\<close> is a rejection
  of \<open>syncToGitHub\<close>, whose \<open>code\<close> may be absent.
\<close>

datatype js_error =
    Error string
  | DriverError string string
  | SyncError "string option" string

fun err_code :: "js_error \<Rightarrow> string option" where
  "err_code (Error m) = None"
| "err_code (DriverError c m) = Some c"
| "err_code (SyncError c m) = c"

text \<open>
  The environment of one call of a public operation: whether the driver fails the
  statement the operation issues for a reason of its own (\<open>db_fault\<close>: code and message,
  for instance \<open>SQLITE_BUSY\<close>), whether \<open>syncToGitHub\<close> rejects (\<open>sync_fault\<close>), and the
  value of \<open>CURRENT_TIMESTAMP\<close>.

  The rounding of doubles is not modelled. The number that a decimal numeral denotes when
  it has more than 17 significant digits or lies outside the range of the doubles
  (\<open>string_to_number\<close>: the nearest double, or an infinity) is given by the environment, and
  so is the text of a rational that is no such decimal (\<open>number_to_string\<close>; no double is
  one). On the safe integers and on the decimals of at most 17 significant digits in the
  range of the doubles, printing and reading are exact, and are defined below.
\<close>

record env =
  db_fault :: "(string \<times> string) option"
  sync_fault :: "(string option \<times> string) option"
  current_timestamp :: string
  number_to_string :: "rat \<Rightarrow> string"
  string_to_number :: "rat \<Rightarrow> jsnum"

section \<open>Strings of values and JSON\<close>

subsection \<open>\<open>String(value)\<close>\<close>

text \<open>
  A safe integer prints as its decimal digits, with a minus sign when negative (which is
  what \<open>Number::toString\<close> gives for it).
\<close>

definition digit_char :: "nat \<Rightarrow> char" where
  "digit_char d = char_of (48 + d)"

function show_nat :: "nat \<Rightarrow> string" where
  "show_nat n = (if n < 10 then [digit_char n] else show_nat (n div 10) @ [digit_char (n mod 10)])"
  by pat_completeness auto
termination
  by (relation "measure id") auto

definition show_int :: "int \<Rightarrow> string" where
  "show_int i = (if i < 0 then CHR ''-'' # show_nat (nat (- i)) else show_nat (nat i))"

definition is_safe_integer :: "rat \<Rightarrow> bool" where
  "is_safe_integer q = (q = of_int \<lfloor>q\<rfloor> \<and> \<bar>q\<bar> \<le> 9007199254740991)"

text \<open>
  The digits of a decimal \<open>q \<ge> 0\<close>: the integer \<open>s\<close>, not divisible by ten, and the exponent
  \<open>x\<close> with \<open>q = s \<times> 10\<^sup>x\<close>. \<open>decimal_scale\<close> looks for the least number of decimal places
  after which \<open>q\<close> is an integer, among the first \<open>limit\<close> candidates from \<open>f\<close> on (a double
  needs at most 340); \<open>strip_zeros\<close> moves the final zeros of an integer into the exponent.
\<close>

fun decimal_scale :: "nat \<Rightarrow> rat \<Rightarrow> nat \<Rightarrow> nat option" where
  "decimal_scale 0 q f = None"
| "decimal_scale (Suc limit) q f =
     (if q * 10 ^ f = of_int \<lfloor>q * 10 ^ f\<rfloor> then Some f else decimal_scale limit q (Suc f))"

function strip_zeros :: "nat \<Rightarrow> int \<Rightarrow> nat \<times> int" where
  "strip_zeros s x =
     (if 0 < s \<and> s mod 10 = 0 then strip_zeros (s div 10) (x + 1) else (s, x))"
  by pat_completeness auto
termination
  by (relation "measure fst") auto

definition decimal_digits :: "rat \<Rightarrow> (nat \<times> int) option" where
  "decimal_digits q =
     (case decimal_scale 342 q 0 of
        None \<Rightarrow> None
      | Some f \<Rightarrow> Some (strip_zeros (nat \<lfloor>q * 10 ^ f\<rfloor>) (- int f)))"

text \<open>
  \<open>Number::toString\<close> in radix 10 for the positive number \<open>s \<times> 10\<^sup>x\<close>, where the digits of
  \<open>s\<close> are \<open>ds\<close>, there are \<open>k\<close> of them and \<open>n = k + x\<close> (so that the number is
  \<open>s \<times> 10\<^sup>n\<^sup>-\<^sup>k\<close>): the digits followed by \<open>n - k\<close> zeros when \<open>k \<le> n \<le> 21\<close>; the digits with
  a point after the first \<open>n\<close> when \<open>0 < n \<le> 21\<close>; \<open>0.\<close>, \<open>-n\<close> zeros and the digits when
  \<open>-6 < n \<le> 0\<close>; otherwise the first digit, a point and the other digits if there are
  any, \<open>e\<close>, the sign of \<open>n - 1\<close> and its absolute value.
\<close>

definition decimal_text :: "nat \<Rightarrow> int \<Rightarrow> string" where
  "decimal_text s x =
     (let ds = show_nat s; k = int (length ds); n = k + x
      in if k \<le> n \<and> n \<le> 21 then ds @ replicate (nat (n - k)) (CHR ''0'')
         else if 0 < n \<and> n \<le> 21 then take (nat n) ds @ ''.'' @ drop (nat n) ds
         else if - 6 < n \<and> n \<le> 0 then ''0.'' @ replicate (nat (- n)) (CHR ''0'') @ ds
         else (if k = 1 then ds else take 1 ds @ ''.'' @ drop 1 ds)
              @ ''e'' @ (if n - 1 < 0 then ''-'' else ''+'') @ show_nat (nat \<bar>n - 1\<bar>))"

text \<open>
  Whether the magnitude \<open>q\<close>, with \<open>10\<^sup>n\<^sup>-\<^sup>1 \<le> q < 10\<^sup>n\<close>, is in the range of the doubles, from
  \<open>5e-324\<close> to \<open>1.7976931348623157e+308\<close>.
\<close>

definition in_double_range :: "rat \<Rightarrow> int \<Rightarrow> bool" where
  "in_double_range q n =
     ((if n \<le> 308 then True else n = 309 \<and> q \<le> 17976931348623157 * 10 ^ 292)
      \<and> (if - 323 < n then True else n = - 323 \<and> 5 / 10 ^ 324 \<le> q))"

text \<open>
  The text of a decimal other than zero that has at most 17 significant digits and a
  magnitude in the range of the doubles; \<open>None\<close> for another rational. The shortest
  decimal of every double other than zero is of this kind.
\<close>

definition short_decimal_text :: "rat \<Rightarrow> string option" where
  "short_decimal_text q =
     (case decimal_digits \<bar>q\<bar> of
        None \<Rightarrow> None
      | Some (s, x) \<Rightarrow>
          if 0 < s \<and> length (show_nat s) \<le> 17
             \<and> in_double_range \<bar>q\<bar> (int (length (show_nat s)) + x)
          then Some ((if q < 0 then ''-'' else []) @ decimal_text s x)
          else None)"

text \<open>
  The finite numbers whose text the model fixes: the safe integers and these decimals.
\<close>

definition is_exact_number :: "rat \<Rightarrow> bool" where
  "is_exact_number q = (is_safe_integer q \<or> short_decimal_text q \<noteq> None)"

fun Number_toString :: "env \<Rightarrow> jsnum \<Rightarrow> string" where
  "Number_toString e (Finite q) =
     (if is_safe_integer q then show_int \<lfloor>q\<rfloor>
      else case short_decimal_text q of Some t \<Rightarrow> t | None \<Rightarrow> number_to_string e q)"
| "Number_toString e NaN = ''NaN''"
| "Number_toString e PosInf = ''Infinity''"
| "Number_toString e NegInf = ''-Infinity''"

fun join_comma :: "string list \<Rightarrow> string" where
  "join_comma [] = []"
| "join_comma [x] = x"
| "join_comma (x # y # ys) = x @ CHR '','' # join_comma (y # ys)"

primrec String_js :: "env \<Rightarrow> jsval \<Rightarrow> string" where
  "String_js e JUndefined = ''undefined''"
| "String_js e JNull = ''null''"
| "String_js e (JBool b) = (if b then ''true'' else ''false'')"
| "String_js e (JNum n) = Number_toString e n"
| "String_js e (JStr s) = s"
| "String_js e (JArr xs) =
     join_comma (map2 (\<lambda>x s. if x = JUndefined \<or> x = JNull then [] else s) xs
                   (map (String_js e) xs))"
| "String_js e (JObj kvs) = ''[object Object]''"

subsection \<open>\<open>JSON.stringify\<close>\<close>

text \<open>
  \<open>QuoteJSONString\<close>: the two-character escapes, a backslash, \<open>u00\<close> and two lower-case
  hexadecimal digits for the other control characters, every other byte as it is.
\<close>

definition hex_digit :: "nat \<Rightarrow> char" where
  "hex_digit d = (if d < 10 then char_of (48 + d) else char_of (87 + d))"

definition quote_char :: "char \<Rightarrow> string" where
  "quote_char c =
     (if c = CHR 0x08 then [CHR 0x5C, CHR ''b'']
      else if c = CHR 0x09 then [CHR 0x5C, CHR ''t'']
      else if c = CHR 0x0A then [CHR 0x5C, CHR ''n'']
      else if c = CHR 0x0C then [CHR 0x5C, CHR ''f'']
      else if c = CHR 0x0D then [CHR 0x5C, CHR ''r'']
      else if c = CHR 0x22 then [CHR 0x5C, CHR 0x22]
      else if c = CHR 0x5C then [CHR 0x5C, CHR 0x5C]
      else if of_char c < (32::nat)
      then [CHR 0x5C, CHR ''u'', CHR ''0'', CHR ''0'',
            hex_digit (of_char c div 16), hex_digit (of_char c mod 16)]
      else [c])"

definition QuoteJSONString :: "string \<Rightarrow> string" where
  "QuoteJSONString s = CHR 0x22 # concat (map quote_char s) @ [CHR 0x22]"

text \<open>
  An array element that serializes to \<open>undefined\<close> is written \<open>null\<close>; an object
  property that serializes to \<open>undefined\<close> is left out.
\<close>

definition element_text :: "string option \<Rightarrow> string" where
  "element_text r = (case r of None \<Rightarrow> ''null'' | Some t \<Rightarrow> t)"

definition property_text :: "string \<times> string option \<Rightarrow> string list" where
  "property_text p =
     (case snd p of None \<Rightarrow> [] | Some t \<Rightarrow> [QuoteJSONString (fst p) @ '':'' @ t])"

primrec SerializeJSONProperty :: "env \<Rightarrow> jsval \<Rightarrow> string option" where
  "SerializeJSONProperty e JUndefined = None"
| "SerializeJSONProperty e JNull = Some ''null''"
| "SerializeJSONProperty e (JBool b) = Some (if b then ''true'' else ''false'')"
| "SerializeJSONProperty e (JNum n) =
     Some (case n of Finite q \<Rightarrow> Number_toString e n | _ \<Rightarrow> ''null'')"
| "SerializeJSONProperty e (JStr s) = Some (QuoteJSONString s)"
| "SerializeJSONProperty e (JArr xs) =
     Some (''['' @ join_comma (map element_text (map (SerializeJSONProperty e) xs)) @ '']'')"
| "SerializeJSONProperty e (JObj kvs) =
     Some (''{'' @ join_comma (concat (map property_text
                                 (map (map_prod id (SerializeJSONProperty e)) kvs))) @ ''}'')"

definition JSON_stringify :: "env \<Rightarrow> jsval \<Rightarrow> string option" where
  "JSON_stringify e v = SerializeJSONProperty e v"

subsection \<open>\<open>JSON.parse\<close>\<close>

text \<open>
  A recursive-descent reader of the JSON grammar: white space is space, tab, line feed and
  carriage return; a value is an object, an array, a string, a number or one of the
  literals \<open>true\<close>, \<open>false\<close>, \<open>null\<close>. Each reader gives what it read and the remaining
  text, or \<open>None\<close> where \<open>JSON.parse\<close> throws a \<open>SyntaxError\<close>.
\<close>

definition is_ws :: "char \<Rightarrow> bool" where
  "is_ws c = (c = CHR 0x20 \<or> c = CHR 0x09 \<or> c = CHR 0x0A \<or> c = CHR 0x0D)"

definition skip_ws :: "string \<Rightarrow> string" where
  "skip_ws s = dropWhile is_ws s"

text \<open>Whether the text starts with the given character.\<close>

fun next_is :: "char \<Rightarrow> string \<Rightarrow> bool" where
  "next_is c [] = False"
| "next_is c (x # r) = (x = c)"

definition is_digit :: "char \<Rightarrow> bool" where
  "is_digit c = (48 \<le> (of_char c :: nat) \<and> (of_char c :: nat) \<le> 57)"

definition digit_val :: "char \<Rightarrow> nat" where
  "digit_val c = of_char c - 48"

definition digits_val :: "string \<Rightarrow> nat" where
  "digits_val ds = foldl (\<lambda>a c. 10 * a + digit_val c) 0 ds"

definition hex_val :: "char \<Rightarrow> nat option" where
  "hex_val c =
     (let n = (of_char c :: nat)
      in if 48 \<le> n \<and> n \<le> 57 then Some (n - 48)
         else if 97 \<le> n \<and> n \<le> 102 then Some (n - 87)
         else if 65 \<le> n \<and> n \<le> 70 then Some (n - 55)
         else None)"

text \<open>Four hexadecimal digits at the head of the text.\<close>

definition hex4 :: "string \<Rightarrow> nat option" where
  "hex4 s =
     (case s of
        a # b # c # d # r \<Rightarrow>
          (case (hex_val a, hex_val b, hex_val c, hex_val d) of
             (Some h3, Some h2, Some h1, Some h0) \<Rightarrow> Some (4096 * h3 + 256 * h2 + 16 * h1 + h0)
           | _ \<Rightarrow> None)
      | _ \<Rightarrow> None)"

text \<open>
  The UTF-8 bytes of a code point. The escape of a surrogate that has no partner is given
  the three bytes that the same scheme yields.
\<close>

definition utf8_encode :: "nat \<Rightarrow> string" where
  "utf8_encode n =
     (if n < 0x80 then [char_of n]
      else if n < 0x800 then [char_of (0xC0 + n div 64), char_of (0x80 + n mod 64)]
      else if n < 0x10000
      then [char_of (0xE0 + n div 4096), char_of (0x80 + n div 64 mod 64),
            char_of (0x80 + n mod 64)]
      else [char_of (0xF0 + n div 262144), char_of (0x80 + n div 4096 mod 64),
            char_of (0x80 + n div 64 mod 64), char_of (0x80 + n mod 64)])"

text \<open>
  The escape after a backslash: the bytes it denotes and the number of characters it
  takes.
\<close>

definition unescape :: "string \<Rightarrow> (string \<times> nat) option" where
  "unescape s =
     (case s of
        [] \<Rightarrow> None
      | c # r \<Rightarrow>
          if c = CHR 0x22 then Some ([CHR 0x22], 1)
          else if c = CHR 0x5C then Some ([CHR 0x5C], 1)
          else if c = CHR ''/'' then Some (''/'', 1)
          else if c = CHR ''b'' then Some ([CHR 0x08], 1)
          else if c = CHR ''f'' then Some ([CHR 0x0C], 1)
          else if c = CHR ''n'' then Some ([CHR 0x0A], 1)
          else if c = CHR ''r'' then Some ([CHR 0x0D], 1)
          else if c = CHR ''t'' then Some ([CHR 0x09], 1)
          else if c = CHR ''u'' then
            (case hex4 r of
               None \<Rightarrow> None
             | Some hi \<Rightarrow>
                 (case (if 0xD800 \<le> hi \<and> hi \<le> 0xDBFF \<and> take 2 (drop 4 r) = [CHR 0x5C, CHR ''u'']
                        then hex4 (drop 6 r) else None) of
                    Some lo \<Rightarrow>
                      if 0xDC00 \<le> lo \<and> lo \<le> 0xDFFF
                      then Some (utf8_encode (0x10000 + (hi - 0xD800) * 0x400 + (lo - 0xDC00)), 11)
                      else Some (utf8_encode hi, 5)
                  | None \<Rightarrow> Some (utf8_encode hi, 5)))
          else None)"

text \<open>The characters of a string up to its closing quote.\<close>

function parse_chars :: "string \<Rightarrow> (string \<times> string) option" where
  "parse_chars [] = None"
| "parse_chars (c # r) =
     (if c = CHR 0x22 then Some ([], r)
      else if c = CHR 0x5C then
        (case unescape r of
           None \<Rightarrow> None
         | Some (bs, n) \<Rightarrow>
             (case parse_chars (drop n r) of
                None \<Rightarrow> None
              | Some (s, r') \<Rightarrow> Some (bs @ s, r')))
      else if of_char c < (32::nat) then None
      else (case parse_chars r of
              None \<Rightarrow> None
            | Some (s, r') \<Rightarrow> Some (c # s, r')))"
  by pat_completeness auto
termination
  by (relation "measure length") auto

text \<open>
  The number that a decimal numeral of exact value \<open>q\<close> denotes. A numeral of at most 17
  significant digits is taken for the shortest decimal of its double, which every numeral
  that \<open>Number::toString\<close> prints is.
\<close>

definition num_of_decimal :: "env \<Rightarrow> rat \<Rightarrow> jsnum" where
  "num_of_decimal e q = (if is_exact_number q then Finite q else string_to_number e q)"

text \<open>
  The parts of a JSON number after the optional minus sign: the integer part (\<open>0\<close>, or
  digits not starting with \<open>0\<close>), the optional fraction (a point and at least one
  digit) and the optional exponent (\<open>e\<close> or \<open>E\<close>, an optional sign, at least one digit).
  Each gives what it read and the remaining text.
\<close>

definition parse_int_part :: "string \<Rightarrow> (string \<times> string) option" where
  "parse_int_part s =
     (let ip = (if next_is (CHR ''0'') s then ''0'' else takeWhile is_digit s)
      in if ip = [] then None else Some (ip, drop (length ip) s))"

definition parse_frac_part :: "string \<Rightarrow> (string \<times> string) option" where
  "parse_frac_part s =
     (if next_is (CHR ''.'') s
      then (let fp = takeWhile is_digit (drop 1 s)
            in if fp = [] then None else Some (fp, drop (1 + length fp) s))
      else Some ([], s))"

definition parse_exp_part :: "string \<Rightarrow> (int \<times> string) option" where
  "parse_exp_part s =
     (if next_is (CHR ''e'') s \<or> next_is (CHR ''E'') s
      then (let s1 = drop 1 s;
                s2 = (if next_is (CHR ''-'') s1 \<or> next_is (CHR ''+'') s1 then drop 1 s1 else s1);
                ep = takeWhile is_digit s2
            in if ep = [] then None
               else Some (if next_is (CHR ''-'') s1 then - int (digits_val ep)
                          else int (digits_val ep),
                          drop (length ep) s2))
      else Some (0, s))"

text \<open>The exact value of the decimal numeral with the given digits and exponent.\<close>

definition decimal_value :: "string \<Rightarrow> string \<Rightarrow> int \<Rightarrow> rat" where
  "decimal_value ip fp x =
     (let m = of_nat (digits_val (ip @ fp)) / 10 ^ length fp
      in if x < 0 then m / 10 ^ nat (- x) else m * 10 ^ nat x)"

definition parse_number :: "env \<Rightarrow> string \<Rightarrow> (jsnum \<times> string) option" where
  "parse_number e s =
     (let neg = (next_is (CHR ''-'') s)
      in case parse_int_part (if neg then drop 1 s else s) of
           None \<Rightarrow> None
         | Some (ip, s2) \<Rightarrow>
             (case parse_frac_part s2 of
                None \<Rightarrow> None
              | Some (fp, s3) \<Rightarrow>
                  (case parse_exp_part s3 of
                     None \<Rightarrow> None
                   | Some (x, s4) \<Rightarrow>
                       Some (num_of_decimal e
                               (if neg then - decimal_value ip fp x else decimal_value ip fp x),
                             s4))))"

definition expect :: "string \<Rightarrow> string \<Rightarrow> string option" where
  "expect lit s = (if take (length lit) s = lit then Some (drop (length lit) s) else None)"

text \<open>
  \<open>parse_elements\<close> reads the elements of a non-empty array up to its closing bracket,
  \<open>parse_members\<close> the members of a non-empty object up to its closing brace; a repeated
  key keeps its first position and takes its last value. The comparisons of lengths hold
  whenever they are reached (a reader never returns more text than it was given) and make
  the recursion visibly terminating.
\<close>

function parse_value :: "env \<Rightarrow> string \<Rightarrow> (jsval \<times> string) option"
  and parse_elements :: "env \<Rightarrow> string \<Rightarrow> (jsval list \<times> string) option"
  and parse_members :: "env \<Rightarrow> string \<Rightarrow> ((string \<times> jsval) list \<times> string) option"
where
  "parse_value e [] = None"
| "parse_value e (c # r) =
     (if c = CHR ''{'' then
        (if next_is (CHR ''}'') (skip_ws r) then Some (JObj [], drop 1 (skip_ws r))
         else (case parse_members e (skip_ws r) of
                 None \<Rightarrow> None
               | Some (kvs, r') \<Rightarrow> Some (JObj (fold (\<lambda>p. AList.update (fst p) (snd p)) kvs []), r')))
      else if c = CHR ''['' then
        (if next_is (CHR '']'') (skip_ws r) then Some (JArr [], drop 1 (skip_ws r))
         else (case parse_elements e (skip_ws r) of
                 None \<Rightarrow> None
               | Some (vs, r') \<Rightarrow> Some (JArr vs, r')))
      else if c = CHR 0x22 then
        (case parse_chars r of None \<Rightarrow> None | Some (s, r') \<Rightarrow> Some (JStr s, r'))
      else if c = CHR ''t'' then map_option (Pair (JBool True)) (expect ''true'' (c # r))
      else if c = CHR ''f'' then map_option (Pair (JBool False)) (expect ''false'' (c # r))
      else if c = CHR ''n'' then map_option (Pair JNull) (expect ''null'' (c # r))
      else (case parse_number e (c # r) of
              None \<Rightarrow> None
            | Some (n, r') \<Rightarrow> Some (JNum n, r')))"
| "parse_elements e s =
     (case parse_value e s of
        None \<Rightarrow> None
      | Some (v, r) \<Rightarrow>
          (case skip_ws r of
             [] \<Rightarrow> None
           | c # r1 \<Rightarrow>
               if c = CHR '']'' then Some ([v], r1)
               else if c = CHR '','' \<and> length r1 < length s then
                 (case parse_elements e (skip_ws r1) of
                    None \<Rightarrow> None
                  | Some (vs, r2) \<Rightarrow> Some (v # vs, r2))
               else None))"
| "parse_members e s =
     (case s of
        [] \<Rightarrow> None
      | q # s1 \<Rightarrow>
          if q \<noteq> CHR 0x22 then None
          else
            (case parse_chars s1 of
               None \<Rightarrow> None
             | Some (k, r) \<Rightarrow>
                 (case skip_ws r of
                    [] \<Rightarrow> None
                  | colon # r1 \<Rightarrow>
                      if colon \<noteq> CHR '':'' \<or> \<not> length r1 < length s then None
                      else
                        (case parse_value e (skip_ws r1) of
                           None \<Rightarrow> None
                         | Some (v, r2) \<Rightarrow>
                             (case skip_ws r2 of
                                [] \<Rightarrow> None
                              | c # r3 \<Rightarrow>
                                  if c = CHR ''}'' then Some ([(k, v)], r3)
                                  else if c = CHR '','' \<and> length r3 < length s then
                                    (case parse_members e (skip_ws r3) of
                                       None \<Rightarrow> None
                                     | Some (kvs, r4) \<Rightarrow> Some ((k, v) # kvs, r4))
                                  else None)))))"
  by pat_completeness auto
termination
  by (relation "measure (\<lambda>x. case x of
            Inl (e, s) \<Rightarrow> 2 * length s
          | Inr (Inl (e, s)) \<Rightarrow> 2 * length s + 1
          | Inr (Inr (e, s)) \<Rightarrow> 2 * length s + 1)")
     (auto simp: skip_ws_def
           intro: order.strict_trans1 [OF mult_le_mono2 [OF length_dropWhile_le]]
                  order.strict_trans1 [OF length_dropWhile_le])

definition JSON_parse :: "env \<Rightarrow> string \<Rightarrow> jsval option" where
  "JSON_parse e s =
     (case parse_value e (skip_ws s) of
        None \<Rightarrow> None
      | Some (v, r) \<Rightarrow> if skip_ws r = [] then Some v else None)"

text \<open>Where a number may end: at the end of the text or before a character that cannot continue it.\<close>

definition number_end :: "string \<Rightarrow> bool" where
  "number_end rest =
     (case rest of [] \<Rightarrow> True
      | c # r \<Rightarrow> \<not> is_digit c \<and> c \<noteq> CHR ''.'' \<and> c \<noteq> CHR ''e'' \<and> c \<noteq> CHR ''E'')"

text \<open>
  A finite number round-trips when the text it is printed as, in the environment \<open>e\<close>, is
  read back, in the environment \<open>e'\<close>, as the same number.
\<close>

definition number_round_trips :: "env \<Rightarrow> env \<Rightarrow> rat \<Rightarrow> bool" where
  "number_round_trips e e' q =
     (\<forall>rest. number_end rest \<longrightarrow>
        parse_number e' (Number_toString e (Finite q) @ rest) = Some (Finite q, rest))"

text \<open>
  The values that JSON text represents exactly: no \<open>undefined\<close>, \<open>NaN\<close> or infinity
  inside, every finite number of the given kind, the keys of every object distinct (as
  the keys of an object are).
\<close>

primrec json_representable :: "(rat \<Rightarrow> bool) \<Rightarrow> jsval \<Rightarrow> bool" where
  "json_representable exact JUndefined = False"
| "json_representable exact JNull = True"
| "json_representable exact (JBool b) = True"
| "json_representable exact (JNum n) = (case n of Finite q \<Rightarrow> exact q | _ \<Rightarrow> False)"
| "json_representable exact (JStr s) = True"
| "json_representable exact (JArr xs) =
     list_all (\<lambda>b. b) (map (json_representable exact) xs)"
| "json_representable exact (JObj kvs) =
     (distinct (map fst kvs)
      \<and> list_all snd (map (map_prod id (json_representable exact)) kvs))"

section \<open>The store\<close>

text \<open>
  Modelled from the spec: the tables of the storage backend, which \<open>../db\<close> creates and
  \<open>configService.js\<close> only queries: \<open>settings(key PK, value)\<close>,
  \<open>models_config(model_id PK, category, daily_quota, individual_quota)\<close> and
  \<open>worker_keys(api_key PK, description, safety_enabled, created_at)\<close>. A table is the
  list of its rows; a column whose content the service does not fix holds a JavaScript
  value, the one the driver hands back when the row is read.
\<close>

record models_config_row =
  mc_model_id :: string
  mc_category :: string
  mc_daily_quota :: "jsnum option"
  mc_individual_quota :: "jsnum option"

record worker_keys_row =
  wk_api_key :: string
  wk_description :: jsval
  wk_safety_enabled :: jsval
  wk_created_at :: string

text \<open>
  The trace records, in order, every statement handed to the driver and every call of
  \<open>syncToGitHub\<close>.
\<close>

datatype event = Storage | Sync

record world =
  settings :: "(string \<times> string) list"
  models_config :: "models_config_row list"
  worker_keys :: "worker_keys_row list"
  trace :: "event list"

text \<open>The result \<open>{ lastID, changes }\<close> of \<open>db.run\<close>; no caller reads \<open>lastID\<close>.\<close>

record run_result =
  changes :: nat

type_synonym 'a outcome = "(js_error + 'a) \<times> world"

subsection \<open>The SQL statements\<close>

text \<open>
  Modelled from the spec: the meaning of each SQL text of \<open>configService.js\<close> on the
  tables above.
  A write statement yields the driver's error (code, message) or the number of rows it
  changed with the new tables; a query yields rows.
\<close>

type_synonym write_stmt = "world \<Rightarrow> (string \<times> string) + (run_result \<times> world)"

text \<open>\<open>SELECT value FROM settings WHERE key = ?\<close>\<close>

definition sql_select_setting :: "string \<Rightarrow> world \<Rightarrow> string option" where
  "sql_select_setting k w = map_of (settings w) k"

text \<open>\<open>INSERT OR REPLACE INTO settings (key, value) VALUES (?, ?)\<close>\<close>

definition sql_replace_setting :: "string \<Rightarrow> string \<Rightarrow> write_stmt" where
  "sql_replace_setting k v w =
     Inr (\<lparr>changes = 1\<rparr>,
          w\<lparr>settings := filter (\<lambda>r. fst r \<noteq> k) (settings w) @ [(k, v)]\<rparr>)"

text \<open>\<open>SELECT * FROM models_config\<close>\<close>

definition sql_select_models :: "world \<Rightarrow> models_config_row list" where
  "sql_select_models w = models_config w"

text \<open>
  \<open>INSERT OR REPLACE INTO models_config (model_id, category, daily_quota,
  individual_quota) VALUES (?, ?, ?, ?)\<close>
\<close>

definition sql_replace_model ::
  "string \<Rightarrow> string \<Rightarrow> jsnum option \<Rightarrow> jsnum option \<Rightarrow> write_stmt" where
  "sql_replace_model m c d i w =
     Inr (\<lparr>changes = 1\<rparr>,
          w\<lparr>models_config := filter (\<lambda>r. mc_model_id r \<noteq> m) (models_config w) @
             [\<lparr>mc_model_id = m, mc_category = c, mc_daily_quota = d,
               mc_individual_quota = i\<rparr>]\<rparr>)"

text \<open>\<open>DELETE FROM models_config WHERE model_id = ?\<close>\<close>

definition sql_delete_model :: "string \<Rightarrow> write_stmt" where
  "sql_delete_model m w =
     Inr (\<lparr>changes = length (filter (\<lambda>r. mc_model_id r = m) (models_config w))\<rparr>,
          w\<lparr>models_config := filter (\<lambda>r. mc_model_id r \<noteq> m) (models_config w)\<rparr>)"

text \<open>\<open>SELECT safety_enabled FROM worker_keys WHERE api_key = ?\<close>\<close>

definition sql_select_worker_safety :: "string \<Rightarrow> world \<Rightarrow> jsval option" where
  "sql_select_worker_safety k w =
     map_option wk_safety_enabled (find (\<lambda>r. wk_api_key r = k) (worker_keys w))"

text \<open>
  \<open>INSERT INTO worker_keys (api_key, description, safety_enabled, created_at)
  VALUES (?, ?, ?, CURRENT_TIMESTAMP)\<close>: a second row with the same primary key is
  refused with the driver's \<open>SQLITE_CONSTRAINT\<close> error.
\<close>

definition sql_insert_worker_key :: "string \<Rightarrow> jsval \<Rightarrow> jsval \<Rightarrow> string \<Rightarrow> write_stmt" where
  "sql_insert_worker_key k d s now w =
     (if k \<in> wk_api_key ` set (worker_keys w)
      then Inl (''SQLITE_CONSTRAINT'',
                ''SQLITE_CONSTRAINT: UNIQUE constraint failed: worker_keys.api_key'')
      else Inr (\<lparr>changes = 1\<rparr>,
                w\<lparr>worker_keys := worker_keys w @
                   [\<lparr>wk_api_key = k, wk_description = d, wk_safety_enabled = s,
                     wk_created_at = now\<rparr>]\<rparr>))"

text \<open>\<open>UPDATE worker_keys SET safety_enabled = ? WHERE api_key = ?\<close>\<close>

definition sql_update_worker_safety :: "jsval \<Rightarrow> string \<Rightarrow> write_stmt" where
  "sql_update_worker_safety s k w =
     Inr (\<lparr>changes = length (filter (\<lambda>r. wk_api_key r = k) (worker_keys w))\<rparr>,
          w\<lparr>worker_keys :=
             map (\<lambda>r. if wk_api_key r = k then r\<lparr>wk_safety_enabled := s\<rparr> else r)
               (worker_keys w)\<rparr>)"

text \<open>\<open>DELETE FROM worker_keys WHERE api_key = ?\<close>\<close>

definition sql_delete_worker_key :: "string \<Rightarrow> write_stmt" where
  "sql_delete_worker_key k w =
     Inr (\<lparr>changes = length (filter (\<lambda>r. wk_api_key r = k) (worker_keys w))\<rparr>,
          w\<lparr>worker_keys := filter (\<lambda>r. wk_api_key r \<noteq> k) (worker_keys w)\<rparr>)"

section \<open>Helper functions for DB interaction\<close>

text \<open>
  \<open>runDb\<close>, \<open>getDb\<close> and \<open>allDb\<close> hand the statement to the driver and reject with the
  driver's error (after logging it) or resolve with its result.
\<close>

definition runDb :: "env \<Rightarrow> write_stmt \<Rightarrow> world \<Rightarrow> run_result outcome" where
  "runDb e stmt w =
     (let w1 = w\<lparr>trace := trace w @ [Storage]\<rparr>
      in case db_fault e of
           Some (c, m) \<Rightarrow> (Inl (DriverError c m), w1)
         | None \<Rightarrow>
             (case stmt w1 of
                Inl (c, m) \<Rightarrow> (Inl (DriverError c m), w1)
              | Inr (r, w2) \<Rightarrow> (Inr r, w2)))"

definition getDb :: "env \<Rightarrow> (world \<Rightarrow> 'r option) \<Rightarrow> world \<Rightarrow> ('r option) outcome" where
  "getDb e query w =
     (let w1 = w\<lparr>trace := trace w @ [Storage]\<rparr>
      in case db_fault e of
           Some (c, m) \<Rightarrow> (Inl (DriverError c m), w1)
         | None \<Rightarrow> (Inr (query w1), w1))"

definition allDb :: "env \<Rightarrow> (world \<Rightarrow> 'r list) \<Rightarrow> world \<Rightarrow> ('r list) outcome" where
  "allDb e query w =
     (let w1 = w\<lparr>trace := trace w @ [Storage]\<rparr>
      in case db_fault e of
           Some (c, m) \<Rightarrow> (Inl (DriverError c m), w1)
         | None \<Rightarrow> (Inr (query w1), w1))"

text \<open>
  Modelled from the spec: \<open>syncToGitHub\<close> of \<open>../db\<close>, the no-argument operation that
  mirrors the store and may fail.
\<close>

definition syncToGitHub :: "env \<Rightarrow> world \<Rightarrow> unit outcome" where
  "syncToGitHub e w =
     (let w1 = w\<lparr>trace := trace w @ [Sync]\<rparr>
      in case sync_fault e of
           Some (c, m) \<Rightarrow> (Inl (SyncError c m), w1)
         | None \<Rightarrow> (Inr (), w1))"

section \<open>Settings management (generic key-value)\<close>

definition getSetting :: "env \<Rightarrow> string \<Rightarrow> jsval \<Rightarrow> world \<Rightarrow> jsval outcome" where
  "getSetting e key defaultValue w =
     (let defaultValue = (if defaultValue = JUndefined then JNull else defaultValue)
      in case getDb e (sql_select_setting key) w of
           (Inl err, w1) \<Rightarrow> (Inl err, w1)
         | (Inr None, w1) \<Rightarrow> (Inr defaultValue, w1)
         | (Inr (Some row_value), w1) \<Rightarrow>
             (case JSON_parse e row_value of
                Some parsed \<Rightarrow> (Inr parsed, w1)
              | None \<Rightarrow> (Inr (JStr row_value), w1)))"

text \<open>
  \<open>JSON.stringify\<close> yields a string for every array and every plain object, so the
  \<open>None\<close> branch below is never taken.
\<close>

definition setSetting :: "env \<Rightarrow> string \<Rightarrow> jsval \<Rightarrow> bool \<Rightarrow> world \<Rightarrow> unit outcome" where
  "setSetting e key v skipSync w =
     (let valueToStore =
            (if typeof v = ''object'' \<and> v \<noteq> JNull
             then (case JSON_stringify e v of Some t \<Rightarrow> t | None \<Rightarrow> [])
             else String_js e v)
      in case runDb e (sql_replace_setting key valueToStore) w of
           (Inl err, w1) \<Rightarrow> (Inl err, w1)
         | (Inr r, w1) \<Rightarrow> if \<not> skipSync then syncToGitHub e w1 else (Inr (), w1))"

section \<open>Model configuration\<close>

text \<open>
  The object \<open>getModelsConfig\<close> builds, keyed by model id; \<open>None\<close> is \<open>undefined\<close>
  (\<open>row.daily_quota ?? undefined\<close>).
\<close>

record model_entry =
  entry_category :: string
  entry_dailyQuota :: "jsnum option"
  entry_individualQuota :: "jsnum option"

definition getModelsConfig :: "env \<Rightarrow> world \<Rightarrow> ((string \<times> model_entry) list) outcome" where
  "getModelsConfig e w =
     (case allDb e sql_select_models w of
        (Inl err, w1) \<Rightarrow> (Inl err, w1)
      | (Inr rows, w1) \<Rightarrow>
          (Inr (fold (\<lambda>row config.
                       AList.update (mc_model_id row)
                         \<lparr>entry_category = mc_category row,
                           entry_dailyQuota = mc_daily_quota row,
                           entry_individualQuota = mc_individual_quota row\<rparr> config)
                  rows []), w1))"

text \<open>
  The quota arguments of \<open>setModelConfig\<close> have the documented type
  \<open>number | null | undefined\<close>; on a number, \<open>Number(x)\<close> is \<open>x\<close>.
\<close>

datatype quota_arg = QUndefined | QNull | QNumber jsnum

fun quotaDb :: "quota_arg \<Rightarrow> jsnum option" where
  "quotaDb QUndefined = None"
| "quotaDb QNull = None"
| "quotaDb (QNumber n) = Some n"

definition daily_quota_message :: string where
  "daily_quota_message = ''Custom model dailyQuota must be a non-negative integer or null.''"

definition individual_quota_message :: string where
  "individual_quota_message =
     ''Pro/Flash model individualQuota must be a non-negative integer or null.''"

definition setModelConfig ::
  "env \<Rightarrow> string \<Rightarrow> string \<Rightarrow> quota_arg \<Rightarrow> quota_arg \<Rightarrow> world \<Rightarrow> unit outcome" where
  "setModelConfig e modelId category dailyQuota individualQuota w =
     (let dailyQuotaDb = quotaDb dailyQuota;
          individualQuotaDb = quotaDb individualQuota
      in if (category = ''Custom'' \<and> dailyQuotaDb \<noteq> None \<and> \<not> Number_isInteger dailyQuotaDb)
            \<or> lt_zero dailyQuotaDb
         then (Inl (Error daily_quota_message), w)
         else if ((category = ''Pro'' \<or> category = ''Flash'') \<and> individualQuotaDb \<noteq> None
                  \<and> \<not> Number_isInteger individualQuotaDb)
                 \<or> lt_zero individualQuotaDb
         then (Inl (Error individual_quota_message), w)
         else
           (case runDb e (sql_replace_model modelId category dailyQuotaDb individualQuotaDb) w of
              (Inl err, w1) \<Rightarrow> (Inl err, w1)
            | (Inr r, w1) \<Rightarrow> syncToGitHub e w1))"

definition deleteModelConfig :: "env \<Rightarrow> string \<Rightarrow> world \<Rightarrow> unit outcome" where
  "deleteModelConfig e modelId w =
     (case runDb e (sql_delete_model modelId) w of
        (Inl err, w1) \<Rightarrow> (Inl err, w1)
      | (Inr result, w1) \<Rightarrow>
          if changes result = 0
          then (Inl (Error (''Model '' @ [CHR 0x27] @ modelId @ [CHR 0x27]
                              @ '' not found for deletion.'')), w1)
          else syncToGitHub e w1)"

text \<open>
  A stored daily quota that is \<open>null\<close>, or a number \<open>n\<close> for which \<open>n < 0\<close> is false and
  which, in a row of category \<open>Custom\<close>, is a non-negative integer.
\<close>

definition daily_quota_ok :: "models_config_row \<Rightarrow> bool" where
  "daily_quota_ok r =
     (case mc_daily_quota r of
        None \<Rightarrow> True
      | Some n \<Rightarrow>
          \<not> num_lt_zero n \<and> (mc_category r = ''Custom'' \<longrightarrow> (\<exists>k::nat. n = Finite (of_nat k))))"

text \<open>A sequence of \<open>setModelConfig\<close> calls, each in its own environment.\<close>

fun setModelConfig_calls ::
  "(env \<times> string \<times> string \<times> quota_arg \<times> quota_arg) list \<Rightarrow> world \<Rightarrow> world" where
  "setModelConfig_calls [] w = w"
| "setModelConfig_calls ((e, modelId, category, dailyQuota, individualQuota) # calls) w =
     setModelConfig_calls calls
       (snd (setModelConfig e modelId category dailyQuota individualQuota w))"

section \<open>Category quotas\<close>

definition default_category_quotas :: jsval where
  "default_category_quotas =
     JObj [(''proQuota'', JNum (Finite 50)), (''flashQuota'', JNum (Finite 1500))]"

definition getCategoryQuotas :: "env \<Rightarrow> world \<Rightarrow> jsval outcome" where
  "getCategoryQuotas e w =
     (case getSetting e ''category_quotas'' default_category_quotas w of
        (Inl err, w1) \<Rightarrow> (Inl err, w1)
      | (Inr quotas, w1) \<Rightarrow>
          (Inr (JObj
             [(''proQuota'',
               if typeof (get_property quotas ''proQuota'') = ''number''
               then get_property quotas ''proQuota'' else JNum (Finite 50)),
              (''flashQuota'',
               if typeof (get_property quotas ''flashQuota'') = ''number''
               then get_property quotas ''flashQuota'' else JNum (Finite 1500))]), w1))"

text \<open>
  \<open>typeof x !== 'number'\<close> holds exactly of the values that are not \<open>JNum\<close>, and the
  comparisons \<open>x < 0\<close> are evaluated only when both arguments are numbers.
\<close>

definition quotas_message :: string where
  "quotas_message = ''Quotas must be non-negative numbers.''"

definition setCategoryQuotas :: "env \<Rightarrow> jsval \<Rightarrow> jsval \<Rightarrow> world \<Rightarrow> unit outcome" where
  "setCategoryQuotas e proQuota flashQuota w =
     (case (proQuota, flashQuota) of
        (JNum p, JNum f) \<Rightarrow>
          if num_lt_zero p \<or> num_lt_zero f
          then (Inl (Error quotas_message), w)
          else setSetting e ''category_quotas''
                 (JObj [(''proQuota'', JNum (Math_floor p)),
                        (''flashQuota'', JNum (Math_floor f))]) False w
      | _ \<Rightarrow> (Inl (Error quotas_message), w))"

section \<open>Worker keys\<close>

definition getWorkerKeySafetySetting :: "env \<Rightarrow> string \<Rightarrow> world \<Rightarrow> bool outcome" where
  "getWorkerKeySafetySetting e apiKey w =
     (case getDb e (sql_select_worker_safety apiKey) w of
        (Inl err, w1) \<Rightarrow> (Inl err, w1)
      | (Inr None, w1) \<Rightarrow> (Inr True, w1)
      | (Inr (Some safety_enabled), w1) \<Rightarrow> (Inr (safety_enabled = JNum (Finite 1)), w1))"

definition already_exists_message :: "string \<Rightarrow> string" where
  "already_exists_message apiKey =
     ''Worker key '' @ [CHR 0x27] @ apiKey @ [CHR 0x27] @ '' already exists.''"

definition addWorkerKey :: "env \<Rightarrow> string \<Rightarrow> jsval \<Rightarrow> world \<Rightarrow> unit outcome" where
  "addWorkerKey e apiKey description w =
     (let description = (if description = JUndefined then JStr [] else description);
          attempt =
            (case runDb e (sql_insert_worker_key apiKey description (JNum (Finite 1))
                             (current_timestamp e)) w of
               (Inl err, w1) \<Rightarrow> (Inl err, w1)
             | (Inr r, w1) \<Rightarrow> syncToGitHub e w1)
      in case attempt of
           (Inl err, w2) \<Rightarrow>
             if err_code err = Some ''SQLITE_CONSTRAINT''
             then (Inl (Error (already_exists_message apiKey)), w2)
             else (Inl err, w2)
         | (Inr u, w2) \<Rightarrow> (Inr (), w2))"

definition updateWorkerKeySafety :: "env \<Rightarrow> string \<Rightarrow> jsval \<Rightarrow> world \<Rightarrow> unit outcome" where
  "updateWorkerKeySafety e apiKey safetyEnabled w =
     (case runDb e (sql_update_worker_safety
                      (JNum (Finite (if truthy safetyEnabled then 1 else 0))) apiKey) w of
        (Inl err, w1) \<Rightarrow> (Inl err, w1)
      | (Inr result, w1) \<Rightarrow>
          if changes result = 0
          then (Inl (Error (''Worker key '' @ [CHR 0x27] @ apiKey @ [CHR 0x27]
                              @ '' not found for updating safety settings.'')), w1)
          else syncToGitHub e w1)"

definition deleteWorkerKey :: "env \<Rightarrow> string \<Rightarrow> world \<Rightarrow> unit outcome" where
  "deleteWorkerKey e apiKey w =
     (case runDb e (sql_delete_worker_key apiKey) w of
        (Inl err, w1) \<Rightarrow> (Inl err, w1)
      | (Inr result, w1) \<Rightarrow>
          if changes result = 0
          then (Inl (Error (''Worker key '' @ [CHR 0x27] @ apiKey @ [CHR 0x27]
                              @ '' not found for deletion.'')), w1)
          else (Inr (), w1))"

section \<open>GitHub configuration\<close>

definition getGitHubConfig :: "env \<Rightarrow> world \<Rightarrow> jsval outcome" where
  "getGitHubConfig e w =
     getSetting e ''github_config''
       (JObj [(''repo'', JStr []), (''token'', JStr []), (''dbPath'', JStr ''./database.db''),
              (''encryptKey'', JNull)]) w"

definition setGitHubConfig ::
  "env \<Rightarrow> jsval \<Rightarrow> jsval \<Rightarrow> jsval \<Rightarrow> jsval \<Rightarrow> world \<Rightarrow> unit outcome" where
  "setGitHubConfig e repo token dbPath encryptKey w =
     (let dbPath = (if dbPath = JUndefined then JStr ''./database.db'' else dbPath);
          encryptKey = (if encryptKey = JUndefined then JNull else encryptKey)
      in setSetting e ''github_config''
           (JObj [(''repo'', repo), (''token'', token), (''dbPath'', dbPath),
                  (''encryptKey'', encryptKey)]) False w)"

section \<open>Concrete environments and stores\<close>

definition env_ok :: env where
  "env_ok = \<lparr>db_fault = None, sync_fault = None,
              current_timestamp = ''2025-01-01 00:00:00'',
              number_to_string = (\<lambda>q. []), string_to_number = Finite\<rparr>"

definition env_sync_down :: env where
  "env_sync_down = env_ok\<lparr>sync_fault := Some (None, ''push failed'')\<rparr>"




definition world_empty :: world where
  "world_empty = \<lparr>settings = [], models_config = [], worker_keys = [], trace = []\<rparr>"

definition world_K1 :: world where
  "world_K1 = world_empty\<lparr>worker_keys :=
     [\<lparr>wk_api_key = ''K1'', wk_description = JStr [], wk_safety_enabled = JNum (Finite 1),
       wk_created_at = ''2025-01-01 00:00:00''\<rparr>]\<rparr>"

definition world_m1 :: world where
  "world_m1 = world_empty\<lparr>models_config :=
     [\<lparr>mc_model_id = ''m1'', mc_category = ''Pro'', mc_daily_quota = None,
       mc_individual_quota = Some (Finite 5)\<rparr>]\<rparr>"

definition world_K1_off :: world where
  "world_K1_off = world_empty\<lparr>worker_keys :=
     [\<lparr>wk_api_key = ''K1'', wk_description = JStr [], wk_safety_enabled = JNull,
       wk_created_at = ''2025-01-01 00:00:00''\<rparr>]\<rparr>"

text \<open>The stored text \<open>{"proQuota":"x","flashQuota":7}\<close>.\<close>

definition partial_quotas_text :: string where
  "partial_quotas_text =
     ''{'' @ QuoteJSONString ''proQuota'' @ '':'' @ QuoteJSONString ''x'' @ '',''
       @ QuoteJSONString ''flashQuota'' @ '':7}''"

definition world_partial_quotas :: world where
  "world_partial_quotas = world_empty\<lparr>settings := [(''category_quotas'', partial_quotas_text)]\<rparr>"

text \<open>The text \<open>{"proQuota":null,"flashQuota":10}\<close>.\<close>

definition null_quota_text :: string where
  "null_quota_text =
     ''{'' @ QuoteJSONString ''proQuota'' @ '':null,'' @ QuoteJSONString ''flashQuota'' @ '':10}''"

definition github_value :: jsval where
  "github_value =
     JObj [(''repo'', JStr ''user/mirror''), (''retries'', JNum (Finite 3)),
           (''rate'', JNum (Finite (1/2))), (''flags'', JArr [JBool True, JNull])]"

section \<open>The JSON reader consumes its input\<close>

declare parse_elements.simps [simp del] parse_members.simps [simp del]


lemma length_skip_ws: "length (skip_ws s) \<le> length s"
  by (simp add: skip_ws_def length_dropWhile_le)

lemma parse_chars_shrinks: "parse_chars s = Some (x, r) \<Longrightarrow> length r < length s"
proof (induction s arbitrary: x r rule: parse_chars.induct)
  case 1
  then show ?case by simp
next
  case (2 c s)
  show ?case
  proof (cases "c = CHR 0x22")
    case True
    with 2(3) show ?thesis by simp
  next
    case nq: False
    show ?thesis
    proof (cases "c = CHR 0x5C")
      case True
      with nq 2(3) obtain bs n x' where u: "unescape s = Some (bs, n)"
        and p: "parse_chars (drop n s) = Some (x', r)"
        by (auto split: option.splits prod.splits)
      from 2(1) [OF nq True u refl p] show ?thesis by simp
    next
      case False
      with nq 2(3) obtain x' where "\<not> of_char c < (32::nat)" "parse_chars s = Some (x', r)"
        by (auto split: option.splits prod.splits if_splits)
      with 2(2) [OF nq False] show ?thesis by fastforce
    qed
  qed
qed

lemma parse_number_shrinks: "parse_number e s = Some (n, r) \<Longrightarrow> length r < length s"
proof -
  assume a: "parse_number e s = Some (n, r)"
  let ?s1 = "if next_is (CHR ''-'') s then drop 1 s else s"
  from a obtain ip s2 fp s3 x where
    i: "parse_int_part ?s1 = Some (ip, s2)" and f: "parse_frac_part s2 = Some (fp, s3)"
    and x: "parse_exp_part s3 = Some (x, r)"
    by (auto simp: parse_number_def Let_def split: option.splits prod.splits)
  from i have "length s2 < length ?s1"
    by (cases ?s1) (auto simp: parse_int_part_def Let_def split: if_splits)
  moreover from f have "length s3 \<le> length s2"
    by (auto simp: parse_frac_part_def Let_def split: if_splits)
  moreover from x have "length r \<le> length s3"
    by (auto simp: parse_exp_part_def Let_def split: if_splits)
  moreover have "length ?s1 \<le> length s" by simp
  ultimately show ?thesis by linarith
qed

lemma expect_shrinks: "expect lit s = Some r \<Longrightarrow> lit \<noteq> [] \<Longrightarrow> length r < length s"
  by (cases s) (auto simp: expect_def split: if_splits)

lemma after_skip_ws: "skip_ws r = c # r1 \<Longrightarrow> length r1 < length r"
  using length_skip_ws [of r] by simp

text \<open>Every reader returns less text than it was given.\<close>

lemma parse_shrinks:
  "\<forall>v r. parse_value e s = Some (v, r) \<longrightarrow> length r < length s"
  "\<forall>vs r. parse_elements e s = Some (vs, r) \<longrightarrow> length r < length s"
  "\<forall>kvs r. parse_members e s = Some (kvs, r) \<longrightarrow> length r < length s"
proof (induction e s and e s and e s rule: parse_value_parse_elements_parse_members.induct)
  case (1 e)
  show ?case by simp
next
  case (2 e c r)
  show ?case
  proof (intro allI impI)
    fix v r' assume a: "parse_value e (c # r) = Some (v, r')"
    consider (obj) "c = CHR ''{''" | (arr) "c \<noteq> CHR ''{''" "c = CHR ''[''"
      | (str) "c \<noteq> CHR ''{''" "c \<noteq> CHR ''[''" "c = CHR 0x22"
      | (lit) "c \<noteq> CHR ''{''" "c \<noteq> CHR ''[''" "c \<noteq> CHR 0x22"
          "c = CHR ''t'' \<or> c = CHR ''f'' \<or> c = CHR ''n''"
      | (num) "c \<noteq> CHR ''{''" "c \<noteq> CHR ''[''" "c \<noteq> CHR 0x22"
          "c \<noteq> CHR ''t''" "c \<noteq> CHR ''f''" "c \<noteq> CHR ''n''"
      by blast
    then show "length r' < length (c # r)"
    proof cases
      case obj
      show ?thesis
      proof (cases "next_is (CHR ''}'') (skip_ws r)")
        case True
        with a obj have "r' = drop 1 (skip_ws r)" by simp
        then show ?thesis using length_skip_ws [of r] by simp
      next
        case False
        with a obj obtain kvs where "parse_members e (skip_ws r) = Some (kvs, r')"
          by (auto split: option.splits prod.splits)
        with 2(1) [OF obj False] have "length r' < length (skip_ws r)" by blast
        then show ?thesis using length_skip_ws [of r] by simp
      qed
    next
      case arr
      show ?thesis
      proof (cases "next_is (CHR '']'') (skip_ws r)")
        case True
        with a arr have "r' = drop 1 (skip_ws r)" by simp
        then show ?thesis using length_skip_ws [of r] by simp
      next
        case False
        with a arr obtain vs where "parse_elements e (skip_ws r) = Some (vs, r')"
          by (auto split: option.splits prod.splits)
        with 2(2) [OF arr False] have "length r' < length (skip_ws r)" by blast
        then show ?thesis using length_skip_ws [of r] by simp
      qed
    next
      case str
      with a obtain x where "parse_chars r = Some (x, r')"
        by (auto split: option.splits prod.splits)
      from parse_chars_shrinks [OF this] show ?thesis by simp
    next
      case lit
      with a obtain l where "expect l (c # r) = Some r'" "l \<noteq> []"
        by (auto split: if_splits)
      from expect_shrinks [OF this] show ?thesis .
    next
      case num
      with a obtain n where "parse_number e (c # r) = Some (n, r')"
        by (auto split: option.splits prod.splits)
      from parse_number_shrinks [OF this] show ?thesis .
    qed
  qed
next
  case (3 e s)
  show ?case
  proof (intro allI impI)
    fix vs r assume a: "parse_elements e s = Some (vs, r)"
    from a obtain v r0 where pv: "parse_value e s = Some (v, r0)"
      by (subst (asm) parse_elements.simps) (auto split: option.splits prod.splits)
    with 3(1) have l0: "length r0 < length s" by blast
    from a pv obtain c r1 where sk: "skip_ws r0 = c # r1"
      by (subst (asm) parse_elements.simps) (auto split: list.splits)
    from after_skip_ws [OF sk] l0 have l1: "length r1 < length s" by simp
    show "length r < length s"
    proof (cases "c = CHR '']''")
      case True
      with a pv sk have "r = r1"
        by (subst (asm) parse_elements.simps) simp
      with l1 show ?thesis by simp
    next
      case False
      with a pv sk l1 obtain vs' where c: "c = CHR '',''"
        and pe: "parse_elements e (skip_ws r1) = Some (vs', r)"
        by (subst (asm) parse_elements.simps) (auto split: option.splits prod.splits if_splits)
      from 3(2) [OF pv refl sk False] c l1 pe
      have "length r < length (skip_ws r1)" by blast
      with length_skip_ws [of r1] l1 show ?thesis by simp
    qed
  qed
next
  case (4 e s)
  show ?case
  proof (intro allI impI)
    fix kvs r assume a: "parse_members e s = Some (kvs, r)"
    from a obtain q s1 where s: "s = q # s1" and q: "q = CHR 0x22"
      by (subst (asm) parse_members.simps) (auto split: list.splits if_splits)
    from a s q obtain k r0 where pc: "parse_chars s1 = Some (k, r0)"
      by (subst (asm) parse_members.simps) (auto split: option.splits prod.splits)
    from parse_chars_shrinks [OF pc] s have l0: "length r0 < length s" by simp
    from a s q pc obtain colon r1 where sk: "skip_ws r0 = colon # r1"
      by (subst (asm) parse_members.simps) (auto split: list.splits)
    from after_skip_ws [OF sk] l0 have l1: "length r1 < length s" by simp
    from a s q pc sk l1 have colon: "colon = CHR '':''"
      by (subst (asm) parse_members.simps) (auto split: if_splits)
    from a s q pc sk l1 colon obtain v r2 where pv: "parse_value e (skip_ws r1) = Some (v, r2)"
      by (subst (asm) parse_members.simps) (auto split: option.splits prod.splits)
    have g1: "\<not> (colon \<noteq> CHR '':'' \<or> \<not> length r1 < length s)" using colon l1 by simp
    have nq: "\<not> q \<noteq> CHR 0x22" using q by simp
    from 4(1) [OF s nq pc refl sk g1] pv have "length r2 < length (skip_ws r1)" by blast
    with length_skip_ws [of r1] l1 have l2: "length r2 < length s" by simp
    from a s q pc sk l1 colon pv obtain c r3 where sk2: "skip_ws r2 = c # r3"
      by (subst (asm) parse_members.simps) (auto split: list.splits)
    from after_skip_ws [OF sk2] l2 have l3: "length r3 < length s" by simp
    show "length r < length s"
    proof (cases "c = CHR ''}''")
      case True
      with a s q pc sk l1 colon pv sk2 have "r = r3"
        by (subst (asm) parse_members.simps) simp
      with l3 show ?thesis by simp
    next
      case False
      with a s q pc sk l1 colon pv sk2 l3 obtain kvs' where c: "c = CHR '',''"
        and pm: "parse_members e (skip_ws r3) = Some (kvs', r)"
        by (subst (asm) parse_members.simps) (auto split: option.splits prod.splits if_splits)
      from 4(2) [OF s nq pc refl sk g1 pv refl sk2 False] c l3 pm
      have "length r < length (skip_ws r3)" by blast
      with length_skip_ws [of r3] l3 show ?thesis by simp
    qed
  qed
qed

text \<open>
  So the comparisons of lengths in \<open>parse_elements\<close> and \<open>parse_members\<close> never fail: the
  two readers satisfy the equations without them.
\<close>

lemma parse_elements_unguarded:
  "parse_elements e s =
     (case parse_value e s of
        None \<Rightarrow> None
      | Some (v, r) \<Rightarrow>
          (case skip_ws r of
             [] \<Rightarrow> None
           | c # r1 \<Rightarrow>
               if c = CHR '']'' then Some ([v], r1)
               else if c = CHR '','' then
                 (case parse_elements e (skip_ws r1) of
                    None \<Rightarrow> None
                  | Some (vs, r2) \<Rightarrow> Some (v # vs, r2))
               else None))"
proof (cases "parse_value e s")
  case None
  then show ?thesis by (subst parse_elements.simps) simp
next
  case (Some vr)
  obtain v r where vr: "vr = (v, r)" by (cases vr)
  from Some vr parse_shrinks(1) have l: "length r < length s" by blast
  show ?thesis
  proof (cases "skip_ws r")
    case Nil
    with Some vr show ?thesis by (subst parse_elements.simps) simp
  next
    case (Cons c r1)
    from after_skip_ws [OF Cons] l have "length r1 < length s" by simp
    with Some vr Cons show ?thesis by (subst parse_elements.simps) simp
  qed
qed

lemma parse_members_unguarded:
  "parse_members e s =
     (case s of
        [] \<Rightarrow> None
      | q # s1 \<Rightarrow>
          if q \<noteq> CHR 0x22 then None
          else
            (case parse_chars s1 of
               None \<Rightarrow> None
             | Some (k, r) \<Rightarrow>
                 (case skip_ws r of
                    [] \<Rightarrow> None
                  | colon # r1 \<Rightarrow>
                      if colon \<noteq> CHR '':'' then None
                      else
                        (case parse_value e (skip_ws r1) of
                           None \<Rightarrow> None
                         | Some (v, r2) \<Rightarrow>
                             (case skip_ws r2 of
                                [] \<Rightarrow> None
                              | c # r3 \<Rightarrow>
                                  if c = CHR ''}'' then Some ([(k, v)], r3)
                                  else if c = CHR '','' then
                                    (case parse_members e (skip_ws r3) of
                                       None \<Rightarrow> None
                                     | Some (kvs, r4) \<Rightarrow> Some ((k, v) # kvs, r4))
                                  else None)))))"
proof (cases s)
  case Nil
  then show ?thesis by (subst parse_members.simps) simp
next
  case s: (Cons q s1)
  show ?thesis
  proof (cases "parse_chars s1")
    case None
    with s show ?thesis by (subst parse_members.simps) simp
  next
    case (Some kr)
    obtain k r where kr: "kr = (k, r)" by (cases kr)
    from parse_chars_shrinks Some kr s have l0: "length r < length s" by fastforce
    show ?thesis
    proof (cases "skip_ws r")
      case Nil
      with s Some kr show ?thesis by (subst parse_members.simps) simp
    next
      case c1: (Cons colon r1)
      from after_skip_ws [OF c1] l0 have l1: "length r1 < length s" by simp
      show ?thesis
      proof (cases "parse_value e (skip_ws r1)")
        case None
        with s Some kr c1 l1 show ?thesis by (subst parse_members.simps) simp
      next
        case pv: (Some vr)
        obtain v r2 where vr: "vr = (v, r2)" by (cases vr)
        from pv vr parse_shrinks(1) have "length r2 < length (skip_ws r1)" by blast
        with length_skip_ws [of r1] l1 have l2: "length r2 < length s" by simp
        show ?thesis
        proof (cases "skip_ws r2")
          case Nil
          with s Some kr c1 l1 pv vr show ?thesis by (subst parse_members.simps) simp
        next
          case c2: (Cons c r3)
          from after_skip_ws [OF c2] l2 have "length r3 < length s" by simp
          with s Some kr c1 l1 pv vr c2 show ?thesis by (subst parse_members.simps) simp
        qed
      qed
    qed
  qed
qed

section \<open>The JSON round trip\<close>

declare show_nat.simps [simp del]

lemma is_digit_digit_char: "d < 10 \<Longrightarrow> is_digit (digit_char d)"
  by (simp add: is_digit_def digit_char_def)

lemma digit_val_digit_char: "d < 10 \<Longrightarrow> digit_val (digit_char d) = d"
  by (simp add: digit_val_def digit_char_def)

lemma digits_val_snoc: "digits_val (ds @ [c]) = 10 * digits_val ds + digit_val c"
  by (simp add: digits_val_def)

lemma show_nat_digits: "\<forall>c \<in> set (show_nat n). is_digit c"
proof (induction n rule: show_nat.induct)
  case (1 n)
  show ?case
  proof (cases "n < 10")
    case True
    then show ?thesis by (subst show_nat.simps) (simp add: is_digit_digit_char)
  next
    case False
    with 1 show ?thesis by (subst show_nat.simps) (simp add: is_digit_digit_char)
  qed
qed

lemma show_nat_val: "digits_val (show_nat n) = n"
proof (induction n rule: show_nat.induct)
  case (1 n)
  show ?case
  proof (cases "n < 10")
    case True
    then show ?thesis
      by (subst show_nat.simps) (simp add: digits_val_def digit_val_digit_char)
  next
    case False
    with 1 show ?thesis
      by (subst show_nat.simps) (simp add: digits_val_snoc digit_val_digit_char)
  qed
qed

lemma show_nat_nonempty: "show_nat n \<noteq> []"
  by (subst show_nat.simps) simp

lemma digit_char_zero: "d < 10 \<Longrightarrow> digit_char d = CHR ''0'' \<longleftrightarrow> d = 0"
proof
  assume "d < 10" "digit_char d = CHR ''0''"
  then have "digit_val (digit_char d) = digit_val (CHR ''0'')" by simp
  with \<open>d < 10\<close> show "d = 0" by (simp add: digit_val_digit_char) (simp add: digit_val_def)
next
  assume "d = 0" then show "digit_char d = CHR ''0''" by (simp add: digit_char_def char_of_eq_iff)
qed

lemma show_nat_hd_zero: "hd (show_nat n) = CHR ''0'' \<Longrightarrow> n = 0"
proof (induction n rule: show_nat.induct)
  case (1 n)
  show ?case
  proof (cases "n < 10")
    case True
    with 1(2) show ?thesis by (subst (asm) show_nat.simps) (simp add: digit_char_zero)
  next
    case False
    with 1(2) have "hd (show_nat (n div 10)) = CHR ''0''"
      by (subst (asm) show_nat.simps) (simp add: show_nat_nonempty)
    with 1(1) False have "n div 10 = 0" by simp
    with False show ?thesis by simp
  qed
qed

lemma show_nat_zero: "show_nat 0 = ''0''"
  by (subst show_nat.simps) (simp add: digit_char_def char_of_eq_iff)

lemma takeWhile_digits:
  "number_end rest \<Longrightarrow> takeWhile is_digit (show_nat n @ rest) = show_nat n"
  using show_nat_digits [of n]
  by (cases rest) (auto simp: number_end_def takeWhile_append2 takeWhile_eq_all_conv)

lemma int_part:
  assumes "number_end rest"
  shows "(if next_is (CHR ''0'') (show_nat n @ rest) then ''0''
          else takeWhile is_digit (show_nat n @ rest)) = show_nat n"
proof (cases "next_is (CHR ''0'') (show_nat n @ rest)")
  case True
  then have "hd (show_nat n) = CHR ''0''"
    using show_nat_nonempty [of n] by (cases "show_nat n") auto
  then have "n = 0" by (rule show_nat_hd_zero)
  with True show ?thesis by (simp add: show_nat_zero)
next
  case False
  with assms show ?thesis by (simp add: takeWhile_digits)
qed


lemma number_end_take:
  assumes "number_end rest"
  shows "\<not> next_is (CHR ''.'') rest" "\<not> next_is (CHR ''e'') rest" "\<not> next_is (CHR ''E'') rest"
  using assms by (cases rest; simp add: number_end_def)+

lemma parse_int_part_show_nat:
  "number_end rest \<Longrightarrow> parse_int_part (show_nat n @ rest) = Some (show_nat n, rest)"
  unfolding parse_int_part_def by (simp only: int_part Let_def) (simp add: show_nat_nonempty)

lemma parse_frac_part_end: "number_end rest \<Longrightarrow> parse_frac_part rest = Some ([], rest)"
  by (simp add: parse_frac_part_def number_end_take)

lemma parse_exp_part_end: "number_end rest \<Longrightarrow> parse_exp_part rest = Some (0, rest)"
  by (simp add: parse_exp_part_def number_end_take)

lemma decimal_value_show_nat: "decimal_value (show_nat n) [] 0 = of_nat n"
  by (simp add: decimal_value_def show_nat_val)

lemma show_nat_not_minus: "\<not> next_is (CHR ''-'') (show_nat n @ rest)"
  using show_nat_digits [of n] show_nat_nonempty [of n]
  by (cases "show_nat n") (auto simp: is_digit_def)

lemma parse_number_show_nat:
  assumes "number_end rest"
  shows "parse_number e (show_nat n @ rest) = Some (num_of_decimal e (of_nat n), rest)"
  unfolding parse_number_def
  by (simp add: show_nat_not_minus parse_int_part_show_nat [OF assms]
        parse_frac_part_end [OF assms] parse_exp_part_end [OF assms] decimal_value_show_nat)

lemma parse_number_show_int:
  assumes "number_end rest"
  shows "parse_number e (show_int i @ rest) = Some (num_of_decimal e (of_int i), rest)"
proof (cases "i < 0")
  case False
  then show ?thesis
    using parse_number_show_nat [OF assms, of e "nat i"] by (simp add: show_int_def)
next
  case True
  have v: "- (of_nat (nat (- i)) :: rat) = of_int i" using True by simp
  show ?thesis
    unfolding parse_number_def
    using True
    by (simp add: show_int_def parse_int_part_show_nat [OF assms]
          parse_frac_part_end [OF assms] parse_exp_part_end [OF assms] decimal_value_show_nat v)
qed

lemma hex_val_hex_digit: "d < 16 \<Longrightarrow> hex_val (hex_digit d) = Some d"
  by (auto simp: hex_val_def hex_digit_def Let_def)

lemma hex4_control:
  "n < 32 \<Longrightarrow>
   hex4 (CHR ''0'' # CHR ''0'' # hex_digit (n div 16) # hex_digit (n mod 16) # r) = Some n"
proof -
  assume n: "n < 32"
  have z: "hex_val (CHR ''0'') = Some 0" by (simp add: hex_val_def)
  have "n div 16 < 16" "n mod 16 < 16" using n by simp_all
  then show ?thesis by (simp add: hex4_def hex_val_hex_digit z)
qed

lemma unescape_control:
  "n < 32 \<Longrightarrow>
   unescape (CHR ''u'' # CHR ''0'' # CHR ''0'' # hex_digit (n div 16) # hex_digit (n mod 16) # r)
     = Some ([char_of n], 5)"
  by (simp add: unescape_def hex4_control utf8_encode_def)

lemma parse_chars_quote_char:
  "parse_chars (quote_char c @ r) =
     (case parse_chars r of None \<Rightarrow> None | Some (s, r') \<Rightarrow> Some (c # s, r'))"
proof -
  consider (named) "c \<in> {CHR 0x08, CHR 0x09, CHR 0x0A, CHR 0x0C, CHR 0x0D, CHR 0x22, CHR 0x5C}"
    | (control) "c \<notin> {CHR 0x08, CHR 0x09, CHR 0x0A, CHR 0x0C, CHR 0x0D, CHR 0x22, CHR 0x5C}"
        "of_char c < (32::nat)"
    | (plain) "c \<notin> {CHR 0x08, CHR 0x09, CHR 0x0A, CHR 0x0C, CHR 0x0D, CHR 0x22, CHR 0x5C}"
        "\<not> of_char c < (32::nat)"
    by blast
  then show ?thesis
  proof cases
    case named
    then show ?thesis
      by (auto simp: quote_char_def unescape_def split: option.split)
  next
    case control
    then have q: "quote_char c = [CHR 0x5C, CHR ''u'', CHR ''0'', CHR ''0'',
        hex_digit (of_char c div 16), hex_digit (of_char c mod 16)]"
      by (simp add: quote_char_def)
    show ?thesis
      using control(2) by (simp add: q unescape_control split: option.split)
  next
    case plain
    then show ?thesis
      by (simp add: quote_char_def split: option.split)
  qed
qed

lemma parse_chars_quoted:
  "parse_chars (concat (map quote_char s) @ CHR 0x22 # rest) = Some (s, rest)"
  by (induction s) (simp_all add: parse_chars_quote_char)

lemma json_representable_JArr [simp]:
  "json_representable P (JArr xs) \<longleftrightarrow> (\<forall>x \<in> set xs. json_representable P x)"
  by (simp add: list_all_iff)

lemma json_representable_JObj [simp]:
  "json_representable P (JObj kvs) \<longleftrightarrow>
     distinct (map fst kvs) \<and> (\<forall>p \<in> set kvs. json_representable P (snd p))"
  by (auto simp: list_all_iff)

declare json_representable.simps(6,7) [simp del]

lemma json_representable_mono:
  "(\<And>q. P q \<Longrightarrow> Q q) \<Longrightarrow> json_representable P v \<Longrightarrow> json_representable Q v"
proof (induction v)
  case (JNum n)
  then show ?case by (cases n) simp_all
next
  case (JObj kvs)
  have "json_representable Q (snd p)" if p: "p \<in> set kvs" for p
  proof -
    have "snd p \<in> Basic_BNFs.snds p" by (cases p) simp
    moreover have "json_representable P (snd p)" using JObj.prems(2) p by simp
    ultimately show ?thesis using JObj.IH [OF p _ JObj.prems(1)] by blast
  qed
  with JObj.prems(2) show ?case by simp
qed simp_all

lemma serialize_Some:
  "v \<noteq> JUndefined \<Longrightarrow> SerializeJSONProperty e v = Some (element_text (SerializeJSONProperty e v))"
  by (cases v) (simp_all add: element_text_def)

lemma safe_integer_floor: "is_safe_integer q \<Longrightarrow> num_of_decimal e (of_int \<lfloor>q\<rfloor>) = Finite q"
  by (simp add: num_of_decimal_def is_exact_number_def is_safe_integer_def)

text \<open>Every safe integer round-trips, in any environments.\<close>

lemma safe_integer_round_trips: "is_safe_integer q \<Longrightarrow> number_round_trips e e' q"
  unfolding number_round_trips_def
  by (simp add: parse_number_show_int safe_integer_floor)

text \<open>The text of a number that round-trips starts with a minus sign or a digit.\<close>

lemma number_text_Cons:
  assumes "number_round_trips e e' q"
  shows "\<exists>c cs. Number_toString e (Finite q) = c # cs \<and> (c = CHR ''-'' \<or> is_digit c)"
proof -
  let ?t = "Number_toString e (Finite q)"
  have "number_end []" by (simp add: number_end_def)
  with assms have p: "parse_number e' ?t = Some (Finite q, [])"
    unfolding number_round_trips_def by fastforce
  show ?thesis
  proof (cases ?t)
    case Nil
    with p show ?thesis by (simp add: parse_number_def parse_int_part_def)
  next
    case (Cons c cs)
    show ?thesis
    proof (cases "c = CHR ''-''")
      case True
      with Cons show ?thesis by simp
    next
      case False
      with p Cons have "parse_int_part (c # cs) \<noteq> None"
        by (auto simp: parse_number_def split: option.splits)
      then have "is_digit c"
        by (auto simp: parse_int_part_def Let_def is_digit_def split: if_splits)
      with Cons show ?thesis by simp
    qed
  qed
qed

text \<open>The first character of the text of a representable value.\<close>

lemma serialized_Cons:
  assumes "json_representable (number_round_trips e e') v"
  shows "\<exists>c cs. element_text (SerializeJSONProperty e v) = c # cs
           \<and> \<not> is_ws c \<and> c \<noteq> CHR '']'' \<and> c \<noteq> CHR ''}''"
proof (cases v)
  case (JNum n)
  with assms obtain q where n: "n = Finite q" and q: "number_round_trips e e' q"
    by (cases n) auto
  obtain c cs where "Number_toString e (Finite q) = c # cs" "c = CHR ''-'' \<or> is_digit c"
    using number_text_Cons [OF q] by blast
  then show ?thesis
    using JNum n by (auto simp: element_text_def is_ws_def is_digit_def)
next
  case (JBool b)
  then show ?thesis by (cases b) (simp_all add: element_text_def is_ws_def)
qed (use assms in \<open>simp_all add: element_text_def is_ws_def QuoteJSONString_def\<close>)

lemma skip_ws_serialized:
  "json_representable (number_round_trips e e') v \<Longrightarrow>
   skip_ws (element_text (SerializeJSONProperty e v) @ r)
     = element_text (SerializeJSONProperty e v) @ r"
  using serialized_Cons [of e e' v] by (auto simp: skip_ws_def)

lemma not_close_serialized:
  "json_representable (number_round_trips e e') v \<Longrightarrow>
   \<not> next_is (CHR '']'') (element_text (SerializeJSONProperty e v) @ r)"
  using serialized_Cons [of e e' v] by auto

lemma parse_value_number:
  assumes "number_round_trips e e' q" and "number_end rest"
  shows "parse_value e' (Number_toString e (Finite q) @ rest) = Some (JNum (Finite q), rest)"
proof -
  obtain c cs where c: "Number_toString e (Finite q) = c # cs" "c = CHR ''-'' \<or> is_digit c"
    using number_text_Cons [OF assms(1)] by blast
  have "c \<noteq> CHR ''{''" "c \<noteq> CHR ''[''" "c \<noteq> CHR 0x22" "c \<noteq> CHR ''t''"
    "c \<noteq> CHR ''f''" "c \<noteq> CHR ''n''"
    using c(2) by (auto simp: is_digit_def)
  then have "parse_value e' (c # cs @ rest) =
          (case parse_number e' (c # cs @ rest) of None \<Rightarrow> None
           | Some (n, r') \<Rightarrow> Some (JNum n, r'))"
    by simp
  moreover have "parse_number e' (c # cs @ rest) = Some (Finite q, rest)"
    using assms c(1) unfolding number_round_trips_def by (metis append_Cons)
  ultimately show ?thesis
    using c(1) by (simp del: Number_toString.simps)
qed

lemma number_end_close [simp]:
  "number_end (CHR '']'' # r)" "number_end (CHR ''}'' # r)" "number_end (CHR '','' # r)"
  "number_end []"
  by (simp_all add: number_end_def is_digit_def)

lemma skip_ws_punct [simp]:
  "skip_ws (CHR '']'' # r) = CHR '']'' # r" "skip_ws (CHR ''}'' # r) = CHR ''}'' # r"
  "skip_ws (CHR '','' # r) = CHR '','' # r" "skip_ws (CHR '':'' # r) = CHR '':'' # r"
  "skip_ws (CHR 0x22 # r) = CHR 0x22 # r" "skip_ws [] = []"
  by (simp_all add: skip_ws_def is_ws_def)

lemma join_comma_Cons:
  "join_comma (a # as) = a @ (if as = [] then [] else CHR '','' # join_comma as)"
  by (cases as) simp_all

lemma parse_elements_serialized:
  assumes "xs \<noteq> []"
    and "\<forall>x \<in> set xs. json_representable (number_round_trips e e') x \<and>
           (\<forall>rest. number_end rest \<longrightarrow>
              parse_value e' (element_text (SerializeJSONProperty e x) @ rest) = Some (x, rest))"
  shows "parse_elements e'
           (join_comma (map (\<lambda>x. element_text (SerializeJSONProperty e x)) xs) @ CHR '']'' # rest)
         = Some (xs, rest)"
  using assms
proof (induction xs rule: list_nonempty_induct)
  case (single x)
  then show ?case by (subst parse_elements.simps) simp
next
  case (cons x xs)
  let ?f = "\<lambda>x. element_text (SerializeJSONProperty e x)"
  obtain y ys where xs: "xs = y # ys" using cons.hyps by (cases xs) auto
  let ?r1 = "join_comma (map ?f xs) @ CHR '']'' # rest"
  have tx: "join_comma (map ?f (x # xs)) @ CHR '']'' # rest = ?f x @ CHR '','' # ?r1"
    by (simp add: xs)
  have pv: "parse_value e' (?f x @ CHR '','' # ?r1) = Some (x, CHR '','' # ?r1)"
    using cons.prems by simp
  have "json_representable (number_round_trips e e') y" using cons.prems by (simp add: xs)
  from skip_ws_serialized [OF this] have sk: "skip_ws ?r1 = ?r1"
    by (simp add: xs join_comma_Cons)
  have ih: "parse_elements e' ?r1 = Some (xs, rest)"
    using cons.IH cons.prems by simp
  show ?case
    unfolding tx by (subst parse_elements.simps) (simp add: pv sk ih)
qed

lemma update_fresh: "k \<notin> fst ` set al \<Longrightarrow> AList.update k v al = al @ [(k, v)]"
  by (induction al) auto

lemma fold_update_distinct:
  "distinct (map fst (acc @ kvs)) \<Longrightarrow>
   fold (\<lambda>p. AList.update (fst p) (snd p)) kvs acc = acc @ kvs"
proof (induction kvs arbitrary: acc)
  case Nil
  then show ?case by simp
next
  case (Cons p kvs)
  have "AList.update (fst p) (snd p) acc = acc @ [p]"
    using Cons.prems by (intro update_fresh [THEN trans]) auto
  then show ?case using Cons.IH [of "acc @ [p]"] Cons.prems by simp
qed

lemma parse_members_serialized:
  assumes "kvs \<noteq> []"
    and "\<forall>p \<in> set kvs. json_representable (number_round_trips e e') (snd p) \<and>
           (\<forall>rest. number_end rest \<longrightarrow>
              parse_value e' (element_text (SerializeJSONProperty e (snd p)) @ rest)
                = Some (snd p, rest))"
  shows "parse_members e'
           (join_comma (map (\<lambda>p. QuoteJSONString (fst p) @ '':'' @
                                   element_text (SerializeJSONProperty e (snd p))) kvs)
            @ CHR ''}'' # rest)
         = Some (kvs, rest)"
  using assms
proof (induction kvs rule: list_nonempty_induct)
  case (single p)
  then have rep: "json_representable (number_round_trips e e') (snd p)" by simp
  from single show ?case
    by (subst parse_members.simps)
       (simp add: QuoteJSONString_def parse_chars_quoted skip_ws_serialized [OF rep])
next
  case (cons p kvs)
  let ?f = "\<lambda>p. QuoteJSONString (fst p) @ '':'' @ element_text (SerializeJSONProperty e (snd p))"
  obtain y ys where kvs: "kvs = y # ys" using cons.hyps by (cases kvs) auto
  let ?r1 = "join_comma (map ?f kvs) @ CHR ''}'' # rest"
  have tx: "join_comma (map ?f (p # kvs)) @ CHR ''}'' # rest = ?f p @ CHR '','' # ?r1"
    by (simp add: kvs)
  have pv: "parse_value e' (element_text (SerializeJSONProperty e (snd p)) @ CHR '','' # ?r1)
              = Some (snd p, CHR '','' # ?r1)"
    using cons.prems by simp
  have sk: "skip_ws ?r1 = ?r1"
    by (simp add: kvs join_comma_Cons QuoteJSONString_def)
  have ih: "parse_members e' ?r1 = Some (kvs, rest)"
    using cons.IH cons.prems by simp
  have rep: "json_representable (number_round_trips e e') (snd p)" using cons.prems by simp
  show ?case
    unfolding tx using pv sk ih
    by (subst parse_members.simps)
       (simp add: QuoteJSONString_def parse_chars_quoted skip_ws_serialized [OF rep])
qed

lemma property_texts:
  "\<forall>p \<in> set kvs. snd p \<noteq> JUndefined \<Longrightarrow>
   concat (map property_text (map (map_prod id (SerializeJSONProperty e)) kvs))
     = map (\<lambda>p. QuoteJSONString (fst p) @ '':'' @
                  element_text (SerializeJSONProperty e (snd p))) kvs"
proof (induction kvs)
  case Nil
  then show ?case by simp
next
  case (Cons p kvs)
  then have "snd p \<noteq> JUndefined" by simp
  then obtain t where t: "SerializeJSONProperty e (snd p) = Some t"
    using serialize_Some by blast
  with Cons show ?case
    by (cases p) (simp add: property_text_def element_text_def)
qed

lemma representable_defined: "json_representable P v \<Longrightarrow> v \<noteq> JUndefined"
  by auto

text \<open>
  Reading the text of a representable value gives the value back, and the text that
  followed it.
\<close>

lemma parse_value_serialized:
  "json_representable (number_round_trips e e') v \<Longrightarrow> number_end rest \<Longrightarrow>
   parse_value e' (element_text (SerializeJSONProperty e v) @ rest) = Some (v, rest)"
proof (induction v arbitrary: rest)
  case JUndefined
  then show ?case by simp
next
  case JNull
  then show ?case by (simp add: element_text_def expect_def)
next
  case (JBool b)
  then show ?case by (cases b) (simp_all add: element_text_def expect_def)
next
  case (JNum n)
  then obtain q where n: "n = Finite q" and q: "number_round_trips e e' q"
    by (cases n) auto
  show ?case
    using parse_value_number [OF q JNum.prems(2)]
    by (simp add: n element_text_def del: Number_toString.simps)
next
  case (JStr s)
  then show ?case by (simp add: element_text_def QuoteJSONString_def parse_chars_quoted)
next
  case (JArr xs)
  show ?case
  proof (cases "xs = []")
    case True
    then show ?thesis by (simp add: element_text_def)
  next
    case False
    then obtain y ys where xs: "xs = y # ys" by (cases xs) auto
    let ?body = "join_comma (map (\<lambda>x. element_text (SerializeJSONProperty e x)) xs)
                   @ CHR '']'' # rest"
    have hyp: "\<forall>x \<in> set xs. json_representable (number_round_trips e e') x \<and>
           (\<forall>rest. number_end rest \<longrightarrow>
              parse_value e' (element_text (SerializeJSONProperty e x) @ rest) = Some (x, rest))"
      using JArr by simp
    have rep: "json_representable (number_round_trips e e') y" using JArr.prems by (simp add: xs)
    have sk: "skip_ws ?body = ?body"
      using skip_ws_serialized [OF rep] by (simp add: xs join_comma_Cons)
    have nc: "\<not> next_is (CHR '']'') ?body"
      using not_close_serialized [OF rep] by (simp add: xs join_comma_Cons)
    have pe: "parse_elements e' ?body = Some (xs, rest)"
      by (rule parse_elements_serialized [OF False hyp])
    have tx: "element_text (SerializeJSONProperty e (JArr xs)) @ rest = CHR ''['' # ?body"
      by (simp add: element_text_def comp_def)
    show ?thesis unfolding tx by (simp add: sk nc pe)
  qed
next
  case (JObj kvs)
  show ?case
  proof (cases "kvs = []")
    case True
    then show ?thesis by (simp add: element_text_def)
  next
    case False
    then obtain y ys where kvs: "kvs = y # ys" by (cases kvs) auto
    let ?f = "\<lambda>p. QuoteJSONString (fst p) @ '':'' @
                   element_text (SerializeJSONProperty e (snd p))"
    let ?body = "join_comma (map ?f kvs) @ CHR ''}'' # rest"
    have hyp: "\<forall>p \<in> set kvs. json_representable (number_round_trips e e') (snd p) \<and>
           (\<forall>rest. number_end rest \<longrightarrow>
              parse_value e' (element_text (SerializeJSONProperty e (snd p)) @ rest)
                = Some (snd p, rest))"
    proof (intro ballI conjI allI impI)
      fix p assume "p \<in> set kvs"
      then show "json_representable (number_round_trips e e') (snd p)" using JObj.prems by simp
    next
      fix p rest' assume p: "p \<in> set kvs" and r: "number_end rest'"
      have rp: "json_representable (number_round_trips e e') (snd p)" using JObj.prems p by simp
      have "snd p \<in> Basic_BNFs.snds p" by (cases p) simp
      from JObj.IH [OF p this rp r]
      show "parse_value e' (element_text (SerializeJSONProperty e (snd p)) @ rest')
              = Some (snd p, rest')" .
    qed
    have defd: "\<forall>p \<in> set kvs. snd p \<noteq> JUndefined"
      using hyp representable_defined by blast
    have sk: "skip_ws ?body = ?body"
      by (simp add: kvs join_comma_Cons QuoteJSONString_def)
    have nc: "\<not> next_is (CHR ''}'') ?body"
      by (simp add: kvs join_comma_Cons QuoteJSONString_def)
    have pm: "parse_members e' ?body = Some (kvs, rest)"
      by (rule parse_members_serialized [OF False hyp])
    have dist: "fold (\<lambda>p. AList.update (fst p) (snd p)) kvs [] = kvs"
      using fold_update_distinct [of "[]" kvs] JObj.prems by simp
    have "SerializeJSONProperty e (JObj kvs) = Some (''{'' @ join_comma (map ?f kvs) @ ''}'')"
      by (simp only: SerializeJSONProperty.simps property_texts [OF defd])
    then have tx: "element_text (SerializeJSONProperty e (JObj kvs)) @ rest = CHR ''{'' # ?body"
      by (simp add: element_text_def)
    show ?thesis unfolding tx using sk nc pm dist by simp
  qed
qed

lemma JSON_parse_stringify:
  "json_representable (number_round_trips e e') v \<Longrightarrow>
   JSON_parse e' (element_text (SerializeJSONProperty e v)) = Some v"
  using parse_value_serialized [of e e' v "[]"] skip_ws_serialized [of e e' v "[]"]
  by (simp add: JSON_parse_def)

subsection \<open>The text of a decimal reads back as the decimal\<close>

declare strip_zeros.simps [simp del]

lemma strip_zeros_value:
  "strip_zeros s x = (s', x') \<Longrightarrow> (of_nat s' :: rat) * 10 powi x' = of_nat s * 10 powi x"
proof (induction s x rule: strip_zeros.induct)
  case (1 s x)
  show ?case
  proof (cases "0 < s \<and> s mod 10 = 0")
    case True
    then have "strip_zeros (s div 10) (x + 1) = (s', x')"
      using 1(2) by (subst (asm) strip_zeros.simps) simp
    then have "(of_nat s' :: rat) * 10 powi x' = of_nat (s div 10) * 10 powi (x + 1)"
      using 1(1) True by simp
    also have "\<dots> = of_nat (s div 10) * 10 * 10 powi x"
      by (simp add: power_int_add)
    also have "of_nat (s div 10) * (10 :: rat) = of_nat (10 * (s div 10))"
      by simp
    also have "10 * (s div 10) = s" using True by presburger
    finally show ?thesis .
  next
    case False
    then have "(s', x') = (s, x)" using 1(2) by (subst (asm) strip_zeros.simps) auto
    then show ?thesis by simp
  qed
qed

lemma decimal_scale_found:
  "decimal_scale limit q f = Some g \<Longrightarrow> q * 10 ^ g = of_int \<lfloor>q * 10 ^ g\<rfloor>"
  by (induction limit arbitrary: f) (auto split: if_splits)

lemma decimal_digits_value:
  assumes "0 \<le> q" and "decimal_digits q = Some (s, x)"
  shows "of_nat s * 10 powi x = q"
proof -
  from assms(2) obtain f where f: "decimal_scale 342 q 0 = Some f"
    and st: "strip_zeros (nat \<lfloor>q * 10 ^ f\<rfloor>) (- int f) = (s, x)"
    by (auto simp: decimal_digits_def split: option.splits)
  have int: "q * 10 ^ f = of_int \<lfloor>q * 10 ^ f\<rfloor>" using f by (rule decimal_scale_found)
  have "0 \<le> q * 10 ^ f" using assms(1) by simp
  then have "0 \<le> \<lfloor>q * 10 ^ f\<rfloor>" by simp
  then have "(of_nat (nat \<lfloor>q * 10 ^ f\<rfloor>) :: rat) = of_int \<lfloor>q * 10 ^ f\<rfloor>" by simp
  with int have n: "(of_nat (nat \<lfloor>q * 10 ^ f\<rfloor>) :: rat) = q * 10 ^ f" by simp
  have "of_nat s * 10 powi x = (of_nat (nat \<lfloor>q * 10 ^ f\<rfloor>) :: rat) * 10 powi (- int f)"
    using st by (rule strip_zeros_value)
  also have "\<dots> = q * 10 ^ f * 10 powi (- int f)" by (simp only: n)
  also have "\<dots> = q" by (simp add: power_int_minus)
  finally show ?thesis .
qed

lemma digits_val_append:
  "digits_val (xs @ ys) = digits_val xs * 10 ^ length ys + digits_val ys"
proof (induction ys rule: rev_induct)
  case Nil
  show ?case by (simp add: digits_val_def)
next
  case (snoc y ys)
  have "digits_val (xs @ ys @ [y]) = 10 * digits_val (xs @ ys) + digit_val y"
    using digits_val_snoc [of "xs @ ys" y] by simp
  then show ?case by (simp add: snoc.IH digits_val_snoc algebra_simps)
qed

lemma digit_val_zero: "digit_val (CHR ''0'') = 0"
  by (simp add: digit_val_def)

lemma is_digit_zero: "is_digit (CHR ''0'')"
  by (simp add: is_digit_def)

lemma digits_val_zeros: "digits_val (replicate z (CHR ''0'')) = 0"
  by (induction z) (simp_all add: digits_val_def digit_val_zero)

lemma takeWhile_digits_stop:
  assumes "\<forall>c \<in> set ds. is_digit c" and "r = [] \<or> \<not> is_digit (hd r)"
  shows "takeWhile is_digit (ds @ r) = ds"
  using assms by (cases r) (auto simp: takeWhile_append2 takeWhile_eq_all_conv)

lemma parse_int_part_digits:
  assumes "ds \<noteq> []" and "\<forall>c \<in> set ds. is_digit c" and "hd ds \<noteq> CHR ''0''"
    and "r = [] \<or> \<not> is_digit (hd r)"
  shows "parse_int_part (ds @ r) = Some (ds, r)"
proof -
  have "\<not> next_is (CHR ''0'') (ds @ r)" using assms(1,3) by (cases ds) auto
  then show ?thesis
    unfolding parse_int_part_def
    using assms(1) by (simp add: takeWhile_digits_stop [OF assms(2,4)])
qed

lemma parse_int_part_zero: "parse_int_part (CHR ''0'' # r) = Some (''0'', r)"
  by (simp add: parse_int_part_def)

lemma parse_frac_part_digits:
  assumes "fp \<noteq> []" and "\<forall>c \<in> set fp. is_digit c" and "r = [] \<or> \<not> is_digit (hd r)"
  shows "parse_frac_part (CHR ''.'' # fp @ r) = Some (fp, r)"
  unfolding parse_frac_part_def
  using assms(1) by (simp add: takeWhile_digits_stop [OF assms(2,3)])

lemma parse_frac_part_none: "\<not> next_is (CHR ''.'') r \<Longrightarrow> parse_frac_part r = Some ([], r)"
  by (simp add: parse_frac_part_def)

lemma parse_exp_part_plus:
  assumes "ep \<noteq> []" and "\<forall>c \<in> set ep. is_digit c" and "r = [] \<or> \<not> is_digit (hd r)"
  shows "parse_exp_part (CHR ''e'' # CHR ''+'' # ep @ r) = Some (int (digits_val ep), r)"
  unfolding parse_exp_part_def
  using assms(1) by (simp add: takeWhile_digits_stop [OF assms(2,3)])

lemma parse_exp_part_minus:
  assumes "ep \<noteq> []" and "\<forall>c \<in> set ep. is_digit c" and "r = [] \<or> \<not> is_digit (hd r)"
  shows "parse_exp_part (CHR ''e'' # CHR ''-'' # ep @ r) = Some (- int (digits_val ep), r)"
  unfolding parse_exp_part_def
  using assms(1) by (simp add: takeWhile_digits_stop [OF assms(2,3)])

lemma number_end_no_digit: "number_end rest \<Longrightarrow> rest = [] \<or> \<not> is_digit (hd rest)"
  by (cases rest) (simp_all add: number_end_def)

lemma decimal_value_powi:
  "decimal_value ip fp x = of_nat (digits_val (ip @ fp)) * 10 powi (x - int (length fp))"
proof -
  have a: "(10 :: rat) powi x = (if x < 0 then 1 / 10 ^ nat (- x) else 10 ^ nat x)"
    by (simp add: power_int_def field_simps)
  have b: "(10 :: rat) powi (x - int (length fp)) = 10 powi x / 10 ^ length fp"
    by (simp add: power_int_diff)
  show ?thesis
    unfolding decimal_value_def Let_def b a by simp
qed

lemma parse_int_part_not_minus:
  "parse_int_part t = Some p \<Longrightarrow> \<not> next_is (CHR ''-'') t"
  by (cases t) (auto simp: parse_int_part_def is_digit_def split: if_splits)

lemma parse_number_parts:
  assumes "parse_int_part t = Some (ip, t2)" and "parse_frac_part t2 = Some (fp, t3)"
    and "parse_exp_part t3 = Some (x, t4)"
  shows "parse_number e t = Some (num_of_decimal e (decimal_value ip fp x), t4)"
  unfolding parse_number_def
  using parse_int_part_not_minus [OF assms(1)] by (simp add: assms)

lemma parse_number_minus_parts:
  assumes "parse_int_part t = Some (ip, t2)" and "parse_frac_part t2 = Some (fp, t3)"
    and "parse_exp_part t3 = Some (x, t4)"
  shows "parse_number e (CHR ''-'' # t) = Some (num_of_decimal e (- decimal_value ip fp x), t4)"
  unfolding parse_number_def by (simp add: assms)

text \<open>The four formats of a number, over any digits \<open>ds\<close> that do not start with a zero.\<close>

lemma plain_parts:
  assumes "ds \<noteq> []" and "\<forall>c \<in> set ds. is_digit c" and "hd ds \<noteq> CHR ''0''"
    and "number_end rest"
  shows "parse_number e ((ds @ replicate z (CHR ''0'')) @ rest)
           = Some (num_of_decimal e (of_nat (digits_val ds) * 10 powi (int z)), rest)"
proof -
  let ?ip = "ds @ replicate z (CHR ''0'')"
  have "parse_int_part (?ip @ rest) = Some (?ip, rest)"
  proof (rule parse_int_part_digits)
    show "?ip \<noteq> []" using assms(1) by simp
    show "\<forall>c \<in> set ?ip. is_digit c" using assms(2) by (auto simp: is_digit_zero)
    show "hd ?ip \<noteq> CHR ''0''" using assms(1,3) by simp
    show "rest = [] \<or> \<not> is_digit (hd rest)" using assms(4) by (rule number_end_no_digit)
  qed
  then have "parse_number e (?ip @ rest) = Some (num_of_decimal e (decimal_value ?ip [] 0), rest)"
    using parse_frac_part_end [OF assms(4)] parse_exp_part_end [OF assms(4)]
    by (rule parse_number_parts)
  moreover have "decimal_value ?ip [] 0 = of_nat (digits_val ds) * 10 powi (int z)"
    by (simp add: decimal_value_powi digits_val_append digits_val_zeros)
  ultimately show ?thesis by simp
qed

lemma point_parts:
  assumes "ds \<noteq> []" and "\<forall>c \<in> set ds. is_digit c" and "hd ds \<noteq> CHR ''0''"
    and "number_end rest" and "0 < m" and "m < length ds"
  shows "parse_number e ((take m ds @ CHR ''.'' # drop m ds) @ rest)
           = Some (num_of_decimal e (of_nat (digits_val ds) * 10 powi (int m - int (length ds))), rest)"
proof -
  let ?ip = "take m ds" and ?fp = "drop m ds"
  have nd: "rest = [] \<or> \<not> is_digit (hd rest)" using assms(4) by (rule number_end_no_digit)
  have "parse_int_part (?ip @ CHR ''.'' # ?fp @ rest) = Some (?ip, CHR ''.'' # ?fp @ rest)"
  proof (rule parse_int_part_digits)
    show "?ip \<noteq> []" using assms(1,5) by simp
    show "\<forall>c \<in> set ?ip. is_digit c" using assms(2) by (auto dest: in_set_takeD)
    show "hd ?ip \<noteq> CHR ''0''" using assms(1,3,5) by (cases ds; cases m) simp_all
    show "CHR ''.'' # ?fp @ rest = [] \<or> \<not> is_digit (hd (CHR ''.'' # ?fp @ rest))"
      by (simp add: is_digit_def)
  qed
  moreover have "parse_frac_part (CHR ''.'' # ?fp @ rest) = Some (?fp, rest)"
  proof (rule parse_frac_part_digits)
    show "?fp \<noteq> []" using assms(6) by simp
    show "\<forall>c \<in> set ?fp. is_digit c" using assms(2) by (auto dest: in_set_dropD)
    show "rest = [] \<or> \<not> is_digit (hd rest)" by (rule nd)
  qed
  ultimately have "parse_number e (?ip @ CHR ''.'' # ?fp @ rest)
      = Some (num_of_decimal e (decimal_value ?ip ?fp 0), rest)"
    using parse_exp_part_end [OF assms(4)] by (rule parse_number_parts)
  moreover have "decimal_value ?ip ?fp 0
      = of_nat (digits_val ds) * 10 powi (int m - int (length ds))"
  proof -
    have "0 - int (length ?fp) = int m - int (length ds)" using assms(6) by simp
    then show ?thesis by (simp only: decimal_value_powi append_take_drop_id)
  qed
  ultimately show ?thesis by simp
qed

lemma small_parts:
  assumes "ds \<noteq> []" and "\<forall>c \<in> set ds. is_digit c" and "number_end rest"
  shows "parse_number e ((CHR ''0'' # CHR ''.'' # replicate z (CHR ''0'') @ ds) @ rest)
           = Some (num_of_decimal e (of_nat (digits_val ds) * 10 powi (- int z - int (length ds))), rest)"
proof -
  let ?fp = "replicate z (CHR ''0'') @ ds"
  have "parse_frac_part (CHR ''.'' # ?fp @ rest) = Some (?fp, rest)"
  proof (rule parse_frac_part_digits)
    show "?fp \<noteq> []" using assms(1) by simp
    show "\<forall>c \<in> set ?fp. is_digit c" using assms(2) by (auto simp: is_digit_zero)
    show "rest = [] \<or> \<not> is_digit (hd rest)" using assms(3) by (rule number_end_no_digit)
  qed
  with parse_int_part_zero [of "CHR ''.'' # ?fp @ rest"]
  have "parse_number e (CHR ''0'' # CHR ''.'' # ?fp @ rest)
      = Some (num_of_decimal e (decimal_value ''0'' ?fp 0), rest)"
    using parse_exp_part_end [OF assms(3)] by (rule parse_number_parts)
  moreover have "decimal_value ''0'' ?fp 0
      = of_nat (digits_val ds) * 10 powi (- int z - int (length ds))"
  proof -
    have "digits_val (''0'' @ ?fp) = digits_val ds"
      using digits_val_append [of "CHR ''0'' # replicate z (CHR ''0'')" ds]
        digits_val_zeros [of "Suc z"] by simp
    moreover have "0 - int (length ?fp) = - int z - int (length ds)" by simp
    ultimately show ?thesis by (simp only: decimal_value_powi)
  qed
  ultimately show ?thesis by simp
qed

lemma whole_exp_parts:
  assumes "ds \<noteq> []" and "\<forall>c \<in> set ds. is_digit c" and "hd ds \<noteq> CHR ''0''"
    and "t3 = [] \<or> \<not> is_digit (hd t3)" and "\<not> next_is (CHR ''.'') t3"
    and "parse_exp_part t3 = Some (x, rest)"
  shows "parse_number e (ds @ t3)
           = Some (num_of_decimal e (of_nat (digits_val ds) * 10 powi x), rest)"
proof -
  have "parse_int_part (ds @ t3) = Some (ds, t3)"
    using assms(1-4) by (rule parse_int_part_digits)
  then have "parse_number e (ds @ t3) = Some (num_of_decimal e (decimal_value ds [] x), rest)"
    using parse_frac_part_none [OF assms(5)] assms(6) by (rule parse_number_parts)
  then show ?thesis by (simp add: decimal_value_powi)
qed

lemma point_exp_parts:
  assumes "ds \<noteq> []" and "\<forall>c \<in> set ds. is_digit c" and "hd ds \<noteq> CHR ''0''"
    and "0 < m" and "m < length ds"
    and "t3 = [] \<or> \<not> is_digit (hd t3)" and "parse_exp_part t3 = Some (x, rest)"
  shows "parse_number e ((take m ds @ CHR ''.'' # drop m ds) @ t3)
           = Some (num_of_decimal e
                     (of_nat (digits_val ds) * 10 powi (x + int m - int (length ds))), rest)"
proof -
  let ?ip = "take m ds" and ?fp = "drop m ds"
  have "parse_int_part (?ip @ CHR ''.'' # ?fp @ t3) = Some (?ip, CHR ''.'' # ?fp @ t3)"
  proof (rule parse_int_part_digits)
    show "?ip \<noteq> []" using assms(1,4) by simp
    show "\<forall>c \<in> set ?ip. is_digit c" using assms(2) by (auto dest: in_set_takeD)
    show "hd ?ip \<noteq> CHR ''0''" using assms(1,3,4) by (cases ds; cases m) simp_all
    show "CHR ''.'' # ?fp @ t3 = [] \<or> \<not> is_digit (hd (CHR ''.'' # ?fp @ t3))"
      by (simp add: is_digit_def)
  qed
  moreover have "parse_frac_part (CHR ''.'' # ?fp @ t3) = Some (?fp, t3)"
  proof (rule parse_frac_part_digits)
    show "?fp \<noteq> []" using assms(5) by simp
    show "\<forall>c \<in> set ?fp. is_digit c" using assms(2) by (auto dest: in_set_dropD)
    show "t3 = [] \<or> \<not> is_digit (hd t3)" by (rule assms(6))
  qed
  ultimately have "parse_number e (?ip @ CHR ''.'' # ?fp @ t3)
      = Some (num_of_decimal e (decimal_value ?ip ?fp x), rest)"
    using assms(7) by (rule parse_number_parts)
  moreover have "decimal_value ?ip ?fp x
      = of_nat (digits_val ds) * 10 powi (x + int m - int (length ds))"
  proof -
    have "x - int (length ?fp) = x + int m - int (length ds)" using assms(5) by simp
    then show ?thesis by (simp only: decimal_value_powi append_take_drop_id)
  qed
  ultimately show ?thesis by simp
qed

lemma exponent_parts:
  assumes "number_end rest"
  shows "parse_exp_part (CHR ''e'' # CHR ''+'' # show_nat y @ rest) = Some (int y, rest)"
    and "parse_exp_part (CHR ''e'' # CHR ''-'' # show_nat y @ rest) = Some (- int y, rest)"
  using parse_exp_part_plus [OF show_nat_nonempty show_nat_digits number_end_no_digit [OF assms], of y]
    parse_exp_part_minus [OF show_nat_nonempty show_nat_digits number_end_no_digit [OF assms], of y]
  by (simp_all add: show_nat_val)

text \<open>The text of a positive decimal reads back as its value.\<close>

lemma parse_number_decimal_text:
  assumes "0 < s" and "number_end rest"
  shows "parse_number e (decimal_text s x @ rest)
           = Some (num_of_decimal e (of_nat s * 10 powi x), rest)"
proof -
  define ds where "ds = show_nat s"
  define k where "k = int (length ds)"
  define n where "n = k + x"
  have d1: "ds \<noteq> []" by (simp add: ds_def show_nat_nonempty)
  have d2: "\<forall>c \<in> set ds. is_digit c" unfolding ds_def by (rule show_nat_digits)
  have d3: "hd ds \<noteq> CHR ''0''" using show_nat_hd_zero [of s] assms(1) by (auto simp: ds_def)
  have d4: "digits_val ds = s" by (simp add: ds_def show_nat_val)
  have k1: "1 \<le> k" using d1 by (cases ds) (simp_all add: k_def)
  have tx: "decimal_text s x =
     (if k \<le> n \<and> n \<le> 21 then ds @ replicate (nat (n - k)) (CHR ''0'')
      else if 0 < n \<and> n \<le> 21 then take (nat n) ds @ CHR ''.'' # drop (nat n) ds
      else if - 6 < n \<and> n \<le> 0 then CHR ''0'' # CHR ''.'' # replicate (nat (- n)) (CHR ''0'') @ ds
      else (if k = 1 then ds else take 1 ds @ CHR ''.'' # drop 1 ds)
           @ CHR ''e'' # (if n - 1 < 0 then CHR ''-'' else CHR ''+'') # show_nat (nat \<bar>n - 1\<bar>))"
    unfolding decimal_text_def Let_def ds_def k_def n_def by simp
  show ?thesis
  proof (cases "k \<le> n \<and> n \<le> 21")
    case True
    then have "decimal_text s x = ds @ replicate (nat x) (CHR ''0'')"
      by (simp add: tx n_def)
    moreover have "int (nat x) = x" using True by (simp add: n_def)
    ultimately show ?thesis
      using plain_parts [OF d1 d2 d3 assms(2), of e "nat x"] by (simp add: d4)
  next
    case notplain: False
    show ?thesis
    proof (cases "0 < n \<and> n \<le> 21")
      case True
      then have t: "decimal_text s x = take (nat n) ds @ CHR ''.'' # drop (nat n) ds"
        using notplain by (simp add: tx)
      have "n < k" using True notplain by simp
      with True have m: "0 < nat n" "nat n < length ds" unfolding k_def by linarith+
      have "int (nat n) - int (length ds) = x" using True by (simp add: n_def k_def)
      then show ?thesis
        using point_parts [OF d1 d2 d3 assms(2) m, of e] by (simp add: d4 t)
    next
      case notpoint: False
      show ?thesis
      proof (cases "- 6 < n \<and> n \<le> 0")
        case True
        then have t: "decimal_text s x
            = CHR ''0'' # CHR ''.'' # replicate (nat (- n)) (CHR ''0'') @ ds"
          using notplain notpoint by (simp add: tx)
        have "- int (nat (- n)) - int (length ds) = x" using True by (simp add: n_def k_def)
        then show ?thesis
          using small_parts [OF d1 d2 assms(2), of e "nat (- n)"] by (simp add: d4 t)
      next
        case False
        let ?y = "nat \<bar>n - 1\<bar>"
        let ?tail = "CHR ''e'' # (if n - 1 < 0 then CHR ''-'' else CHR ''+'') # show_nat ?y @ rest"
        have t: "decimal_text s x @ rest
            = (if k = 1 then ds else take 1 ds @ CHR ''.'' # drop 1 ds) @ ?tail"
          by (simp only: tx notplain notpoint False if_False append_assoc append_Cons)
        have ex: "parse_exp_part ?tail = Some (n - 1, rest)"
          using exponent_parts [OF assms(2), of ?y] by auto
        have nd: "?tail = [] \<or> \<not> is_digit (hd ?tail)" by (simp add: is_digit_def)
        have np: "\<not> next_is (CHR ''.'') ?tail" by simp
        show ?thesis
        proof (cases "k = 1")
          case True
          then have "n - 1 = x" by (simp add: n_def)
          then show ?thesis
            using whole_exp_parts [OF d1 d2 d3 nd np ex, of e] True by (simp only: t d4 if_True simp_thms)
        next
          case False
          with k1 have m: "0 < (1::nat)" "1 < length ds" by (simp_all add: k_def)
          have "n - 1 + int 1 - int (length ds) = x" by (simp add: n_def k_def)
          then show ?thesis
            using point_exp_parts [OF d1 d2 d3 m nd ex, of e] False
            by (simp only: t d4 if_False append_assoc append_Cons)
        qed
      qed
    qed
  qed
qed

lemma decimal_value_nonneg: "0 \<le> decimal_value ip fp x"
  by (simp add: decimal_value_def Let_def)

text \<open>
  The numeral after a minus sign: what the reader makes of a numeral is known from what
  it makes of it where every exact value is kept.
\<close>

lemma parse_number_negate:
  assumes "parse_number (e\<lparr>string_to_number := Finite\<rparr>) t = Some (Finite v, r)" and "0 < v"
  shows "parse_number e' (CHR ''-'' # t) = Some (num_of_decimal e' (- v), r)"
proof -
  let ?e = "e\<lparr>string_to_number := Finite\<rparr>"
  have keep: "num_of_decimal ?e u = Finite u" for u by (simp add: num_of_decimal_def)
  have pos: "\<not> next_is (CHR ''-'') t"
  proof
    assume neg: "next_is (CHR ''-'') t"
    from assms(1) obtain ip fp x where "v = - decimal_value ip fp x"
      unfolding parse_number_def Let_def keep using neg
      by (auto split: option.splits)
    with decimal_value_nonneg [of ip fp x] assms(2) show False by simp
  qed
  from assms(1) obtain ip fp x t2 t3 where parts: "parse_int_part t = Some (ip, t2)"
      "parse_frac_part t2 = Some (fp, t3)" "parse_exp_part t3 = Some (x, r)"
      "v = decimal_value ip fp x"
    unfolding parse_number_def Let_def keep using pos
    by (auto split: option.splits)
  show ?thesis
    using parse_number_minus_parts [OF parts(1-3), of e'] by (simp add: parts(4))
qed

lemma short_decimal_round_trips:
  assumes "short_decimal_text q = Some t" and "number_end rest"
  shows "parse_number e' (t @ rest) = Some (Finite q, rest)"
proof -
  from assms(1) obtain s x where dd: "decimal_digits \<bar>q\<bar> = Some (s, x)"
    and s: "0 < s"
    and t: "t = (if q < 0 then ''-'' else []) @ decimal_text s x"
    by (auto simp: short_decimal_text_def split: option.splits if_splits)
  have v: "of_nat s * 10 powi x = \<bar>q\<bar>" using dd by (intro decimal_digits_value) simp_all
  have qpos: "0 < \<bar>q\<bar>"
  proof (rule ccontr)
    assume "\<not> 0 < \<bar>q\<bar>"
    then have "\<bar>q\<bar> = 0" by simp
    with v s show False by simp
  qed
  have exact: "num_of_decimal e' q = Finite q"
    using assms(1) by (simp add: num_of_decimal_def is_exact_number_def)
  have p: "parse_number d (decimal_text s x @ rest) = Some (num_of_decimal d \<bar>q\<bar>, rest)" for d
    using parse_number_decimal_text [OF s assms(2), of d x] by (simp only: v)
  show ?thesis
  proof (cases "q < 0")
    case False
    then have "\<bar>q\<bar> = q" by simp
    with p [of e'] False show ?thesis by (simp add: t exact)
  next
    case True
    have "parse_number (e'\<lparr>string_to_number := Finite\<rparr>) (decimal_text s x @ rest)
            = Some (Finite \<bar>q\<bar>, rest)"
      using p [of "e'\<lparr>string_to_number := Finite\<rparr>"] by (simp add: num_of_decimal_def)
    then have "parse_number e' (CHR ''-'' # decimal_text s x @ rest)
            = Some (num_of_decimal e' (- \<bar>q\<bar>), rest)"
      using qpos by (rule parse_number_negate)
    moreover have "- \<bar>q\<bar> = q" using True by simp
    ultimately show ?thesis using True by (simp add: t exact)
  qed
qed

text \<open>
  Every safe integer and every decimal of at most 17 significant digits in the range of
  the doubles round-trips, in any environments.
\<close>

lemma exact_number_round_trips: "is_exact_number q \<Longrightarrow> number_round_trips e e' q"
proof (cases "is_safe_integer q")
  case True
  then show ?thesis by (rule safe_integer_round_trips)
next
  case False
  assume "is_exact_number q"
  with False obtain t where t: "short_decimal_text q = Some t"
    by (auto simp: is_exact_number_def)
  with False have "Number_toString e (Finite q) = t" by simp
  then show ?thesis
    unfolding number_round_trips_def
    using short_decimal_round_trips [OF t] by simp
qed

section \<open>Write, then sync\<close>

lemma syncToGitHub_result:
  "syncToGitHub e w =
     (case sync_fault e of None \<Rightarrow> Inr () | Some (c, m) \<Rightarrow> Inl (SyncError c m),
      w\<lparr>trace := trace w @ [Sync]\<rparr>)"
  by (simp add: syncToGitHub_def Let_def split: option.splits prod.splits)

text \<open>
  The mutators that call \<open>syncToGitHub\<close>: when they return without error the trace has
  grown by the statement and the sync, in this order, and a failing sync makes them fail.
\<close>

lemma setSetting_syncs:
  "fst (setSetting e key v False w) = Inr () \<Longrightarrow>
   trace (snd (setSetting e key v False w)) = trace w @ [Storage, Sync] \<and> sync_fault e = None"
  by (auto simp: setSetting_def runDb_def syncToGitHub_result sql_replace_setting_def Let_def
           split: option.splits sum.splits prod.splits)

lemma setModelConfig_syncs:
  "fst (setModelConfig e m c d i w) = Inr () \<Longrightarrow>
   trace (snd (setModelConfig e m c d i w)) = trace w @ [Storage, Sync] \<and> sync_fault e = None"
  by (auto simp: setModelConfig_def runDb_def syncToGitHub_result sql_replace_model_def Let_def
           split: option.splits sum.splits prod.splits if_splits)

lemma deleteModelConfig_syncs:
  "fst (deleteModelConfig e m w) = Inr () \<Longrightarrow>
   trace (snd (deleteModelConfig e m w)) = trace w @ [Storage, Sync] \<and> sync_fault e = None"
  by (auto simp: deleteModelConfig_def runDb_def syncToGitHub_result sql_delete_model_def Let_def
           split: option.splits sum.splits prod.splits if_splits)

lemma setCategoryQuotas_syncs:
  "fst (setCategoryQuotas e p f w) = Inr () \<Longrightarrow>
   trace (snd (setCategoryQuotas e p f w)) = trace w @ [Storage, Sync] \<and> sync_fault e = None"
  using setSetting_syncs
  by (auto simp: setCategoryQuotas_def split: jsval.splits if_splits)

lemma setGitHubConfig_syncs:
  "fst (setGitHubConfig e r t p k w) = Inr () \<Longrightarrow>
   trace (snd (setGitHubConfig e r t p k w)) = trace w @ [Storage, Sync] \<and> sync_fault e = None"
  using setSetting_syncs by (simp add: setGitHubConfig_def Let_def)

lemma addWorkerKey_syncs:
  "fst (addWorkerKey e k d w) = Inr () \<Longrightarrow>
   trace (snd (addWorkerKey e k d w)) = trace w @ [Storage, Sync] \<and> sync_fault e = None"
  by (auto simp: addWorkerKey_def runDb_def syncToGitHub_result sql_insert_worker_key_def Let_def
           split: option.splits sum.splits prod.splits if_splits)

lemma updateWorkerKeySafety_syncs:
  "fst (updateWorkerKeySafety e k s w) = Inr () \<Longrightarrow>
   trace (snd (updateWorkerKeySafety e k s w)) = trace w @ [Storage, Sync] \<and> sync_fault e = None"
  by (auto simp: updateWorkerKeySafety_def runDb_def syncToGitHub_result
                 sql_update_worker_safety_def Let_def
           split: option.splits sum.splits prod.splits if_splits)

text \<open>
  \<open>deleteWorkerKey\<close> hands its statement to the driver and never calls \<open>syncToGitHub\<close>:
  whether the sync collaborator would fail makes no difference to it.
\<close>

lemma deleteWorkerKey_trace:
  "trace (snd (deleteWorkerKey e apiKey w)) = trace w @ [Storage]"
  by (auto simp: deleteWorkerKey_def runDb_def sql_delete_worker_key_def Let_def
           split: option.splits)

lemma deleteWorkerKey_ignores_sync:
  "deleteWorkerKey (e\<lparr>sync_fault := f\<rparr>) apiKey w = deleteWorkerKey e apiKey w"
  by (simp add: deleteWorkerKey_def runDb_def Let_def)

text \<open>
  C1. Every public mutator is to follow its write by an awaited call of the sync trigger,
  whose failure is the mutator's failure. \<open>deleteWorkerKey\<close> does not: with the sync
  collaborator down it deletes the row of \<open>K1\<close> and returns without error, and the trace
  holds the statement only, where \<open>deleteModelConfig\<close> in the same situation calls the
  sync and fails with its error.
\<close>

theorem deleteWorkerKey_never_syncs:
  "deleteWorkerKey env_sync_down ''K1'' world_K1
     = (Inr (), world_empty\<lparr>trace := [Storage]\<rparr>)
   \<and> deleteModelConfig env_sync_down ''m1'' world_m1
     = (Inl (SyncError None ''push failed''), world_empty\<lparr>trace := [Storage, Sync]\<rparr>)"
  by (simp add: deleteWorkerKey_def deleteModelConfig_def runDb_def syncToGitHub_def
        sql_delete_worker_key_def sql_delete_model_def env_sync_down_def env_ok_def
        world_K1_def world_m1_def world_empty_def Let_def)

section \<open>Validation of model quotas\<close>

lemma setModelConfig_unfold:
  "setModelConfig e m c d i w =
     (if (c = ''Custom'' \<and> quotaDb d \<noteq> None \<and> \<not> Number_isInteger (quotaDb d))
          \<or> lt_zero (quotaDb d)
      then (Inl (Error daily_quota_message), w)
      else if ((c = ''Pro'' \<or> c = ''Flash'') \<and> quotaDb i \<noteq> None
               \<and> \<not> Number_isInteger (quotaDb i)) \<or> lt_zero (quotaDb i)
      then (Inl (Error individual_quota_message), w)
      else (case runDb e (sql_replace_model m c (quotaDb d) (quotaDb i)) w of
              (Inl err, w1) \<Rightarrow> (Inl err, w1)
            | (Inr r, w1) \<Rightarrow> syncToGitHub e w1))"
  by (simp add: setModelConfig_def Let_def)

lemma lt_zero_iff: "lt_zero x \<longleftrightarrow> (\<exists>q. x = Some (Finite q) \<and> q < 0) \<or> x = Some NegInf"
proof (cases x)
  case None
  then show ?thesis by simp
next
  case (Some n)
  then show ?thesis by (cases n) simp_all
qed

lemma replace_model_outcome:
  assumes "(case runDb e (sql_replace_model m c dq iq) w of
              (Inl err, w1) \<Rightarrow> (Inl err, w1)
            | (Inr r, w1) \<Rightarrow> syncToGitHub e w1) = (r', w')"
  shows "(\<forall>msg. r' \<noteq> Inl (Error msg)) \<and> (\<exists>rest. trace w' = trace w @ Storage # rest)"
  using assms
  by (auto simp: runDb_def syncToGitHub_def sql_replace_model_def Let_def
           split: option.splits prod.splits)

lemma setModelConfig_cases:
  fixes e m c d i w
  defines "daily \<equiv> (c = ''Custom'' \<and> quotaDb d \<noteq> None \<and> \<not> Number_isInteger (quotaDb d))
                    \<or> lt_zero (quotaDb d)"
      and "indiv \<equiv> ((c = ''Pro'' \<or> c = ''Flash'') \<and> quotaDb i \<noteq> None
                     \<and> \<not> Number_isInteger (quotaDb i)) \<or> lt_zero (quotaDb i)"
  shows "(daily \<and> setModelConfig e m c d i w = (Inl (Error daily_quota_message), w))
       \<or> (\<not> daily \<and> indiv
           \<and> setModelConfig e m c d i w = (Inl (Error individual_quota_message), w))
       \<or> (\<not> daily \<and> \<not> indiv
           \<and> setModelConfig e m c d i w =
               (case runDb e (sql_replace_model m c (quotaDb d) (quotaDb i)) w of
                  (Inl err, w1) \<Rightarrow> (Inl err, w1)
                | (Inr r, w1) \<Rightarrow> syncToGitHub e w1))"
proof (cases daily)
  case True
  then show ?thesis
    unfolding daily_def by (simp only: setModelConfig_unfold if_P simp_thms)
next
  case nd: False
  show ?thesis
  proof (cases indiv)
    case True
    with nd show ?thesis
      unfolding daily_def indiv_def
      by (simp only: setModelConfig_unfold if_P if_not_P simp_thms)
  next
    case False
    with nd show ?thesis
      unfolding daily_def indiv_def
      by (simp only: setModelConfig_unfold if_not_P simp_thms)
  qed
qed

text \<open>
  C2. \<open>setModelConfig\<close> throws one of its two validation errors exactly when: the category
  is \<open>Custom\<close> and the normalized daily quota is non-null and not an integer, or the
  normalized daily quota is negative (whatever the category), or the category is \<open>Pro\<close> or
  \<open>Flash\<close> and the normalized individual quota is non-null and not an integer, or the
  normalized individual quota is negative (whatever the category). It then throws before
  any storage access: the store and the trace are as they were.
\<close>

theorem setModelConfig_validation_error_iff:
  "(fst (setModelConfig e m c d i w)
      \<in> {Inl (Error daily_quota_message), Inl (Error individual_quota_message)}
    \<longleftrightarrow>
      (c = ''Custom'' \<and> quotaDb d \<noteq> None \<and> \<not> Number_isInteger (quotaDb d))
      \<or> ((\<exists>q. quotaDb d = Some (Finite q) \<and> q < 0) \<or> quotaDb d = Some NegInf)
      \<or> ((c = ''Pro'' \<or> c = ''Flash'') \<and> quotaDb i \<noteq> None \<and> \<not> Number_isInteger (quotaDb i))
      \<or> ((\<exists>q. quotaDb i = Some (Finite q) \<and> q < 0) \<or> quotaDb i = Some NegInf))
   \<and> (fst (setModelConfig e m c d i w)
         \<in> {Inl (Error daily_quota_message), Inl (Error individual_quota_message)}
       \<longrightarrow> snd (setModelConfig e m c d i w) = w)"
proof -
  let ?daily = "(c = ''Custom'' \<and> quotaDb d \<noteq> None \<and> \<not> Number_isInteger (quotaDb d))
                \<or> lt_zero (quotaDb d)"
  let ?indiv = "((c = ''Pro'' \<or> c = ''Flash'') \<and> quotaDb i \<noteq> None
                 \<and> \<not> Number_isInteger (quotaDb i)) \<or> lt_zero (quotaDb i)"
  let ?res = "setModelConfig e m c d i w"
  let ?errs = "{Inl (Error daily_quota_message), Inl (Error individual_quota_message)}"
  have main: "(fst ?res \<in> ?errs \<longleftrightarrow> ?daily \<or> ?indiv) \<and> (fst ?res \<in> ?errs \<longrightarrow> snd ?res = w)"
  proof -
    consider (daily) "?daily" "?res = (Inl (Error daily_quota_message), w)"
      | (indiv) "?indiv" "?res = (Inl (Error individual_quota_message), w)"
      | (stored) "\<not> ?daily" "\<not> ?indiv"
          "?res = (case runDb e (sql_replace_model m c (quotaDb d) (quotaDb i)) w of
                     (Inl err, w1) \<Rightarrow> (Inl err, w1)
                   | (Inr r, w1) \<Rightarrow> syncToGitHub e w1)"
      using setModelConfig_cases [where e=e and m=m and c=c and d=d and i=i and w=w]
      by argo
    then show ?thesis
    proof cases
      case daily
      then show ?thesis by simp
    next
      case indiv
      then show ?thesis by simp
    next
      case stored
      obtain r' w' where rw: "?res = (r', w')" by (cases ?res)
      with stored(3) have "(case runDb e (sql_replace_model m c (quotaDb d) (quotaDb i)) w of
              (Inl err, w1) \<Rightarrow> (Inl err, w1)
            | (Inr r, w1) \<Rightarrow> syncToGitHub e w1) = (r', w')"
        by simp
      from replace_model_outcome [OF this] have "fst ?res \<notin> ?errs"
        by (simp add: rw)
      with stored(1,2) show ?thesis by simp
    qed
  qed
  have iff: "fst ?res \<in> ?errs \<longleftrightarrow>
      (c = ''Custom'' \<and> quotaDb d \<noteq> None \<and> \<not> Number_isInteger (quotaDb d))
      \<or> ((\<exists>q. quotaDb d = Some (Finite q) \<and> q < 0) \<or> quotaDb d = Some NegInf)
      \<or> ((c = ''Pro'' \<or> c = ''Flash'') \<and> quotaDb i \<noteq> None \<and> \<not> Number_isInteger (quotaDb i))
      \<or> ((\<exists>q. quotaDb i = Some (Finite q) \<and> q < 0) \<or> quotaDb i = Some NegInf)"
    using main [THEN conjunct1] by (simp only: lt_zero_iff disj_assoc simp_thms)
  show ?thesis
    by (intro conjI iff main [THEN conjunct2])
qed

theorem setModelConfig_validation_error_iff_witness:
  "fst (setModelConfig env_ok ''gemini-pro'' ''Pro'' (QNumber (Finite (- 1))) QNull world_empty)
     = Inl (Error daily_quota_message)
   \<and> snd (setModelConfig env_ok ''gemini-pro'' ''Pro'' (QNumber (Finite (- 1))) QNull world_empty)
     = world_empty"
proof -
  let ?res = "setModelConfig env_ok ''gemini-pro'' ''Pro'' (QNumber (Finite (- 1))) QNull
                world_empty"
  have err: "fst ?res = Inl (Error daily_quota_message)"
    by (simp add: setModelConfig_unfold)
  then have "fst ?res \<in> {Inl (Error daily_quota_message), Inl (Error individual_quota_message)}"
    by simp
  with setModelConfig_validation_error_iff
         [of env_ok "''gemini-pro''" "''Pro''" "QNumber (Finite (- 1))" QNull world_empty]
  have "snd ?res = world_empty" by blast
  with err show ?thesis by simp
qed

text \<open>
  C9. With both quotas \<open>null\<close> or \<open>undefined\<close>, \<open>setModelConfig\<close> throws no validation
  error, whatever the model id and the category: no failure of the call is an \<open>Error\<close>
  of the service, and the statement reaches the driver.
\<close>

theorem setModelConfig_null_quotas_pass:
  assumes "d \<in> {QUndefined, QNull}" and "i \<in> {QUndefined, QNull}"
  shows "(\<forall>msg. fst (setModelConfig e m c d i w) \<noteq> Inl (Error msg))
         \<and> (\<exists>rest. trace (snd (setModelConfig e m c d i w)) = trace w @ Storage # rest)"
proof -
  have q: "quotaDb d = None" "quotaDb i = None" using assms by auto
  obtain r' w' where rw: "setModelConfig e m c d i w = (r', w')"
    by (cases "setModelConfig e m c d i w")
  then have "(case runDb e (sql_replace_model m c None None) w of
              (Inl err, w1) \<Rightarrow> (Inl err, w1)
            | (Inr r, w1) \<Rightarrow> syncToGitHub e w1) = (r', w')"
    using setModelConfig_cases [where e=e and m=m and c=c and d=d and i=i and w=w] by (simp add: q)
  from replace_model_outcome [OF this] rw show ?thesis by simp
qed

theorem setModelConfig_null_quotas_pass_witness:
  "QUndefined \<in> {QUndefined, QNull} \<and> QNull \<in> {QUndefined, QNull}
   \<and> (\<forall>msg. fst (setModelConfig env_ok ''m'' ''Ultra'' QUndefined QNull world_empty)
              \<noteq> Inl (Error msg))
   \<and> (\<exists>rest. trace (snd (setModelConfig env_ok ''m'' ''Ultra'' QUndefined QNull world_empty))
              = trace world_empty @ Storage # rest)"
  using setModelConfig_null_quotas_pass
          [of QUndefined QNull env_ok "''m''" "''Ultra''" world_empty]
  by simp

section \<open>Stored daily quotas\<close>

lemma not_integer_three_halves: "\<not> num_isInteger (Finite (3 / 2))"
proof
  assume "num_isInteger (Finite (3 / 2))"
  then have "(3 / 2 :: rat) = of_int \<lfloor>3 / 2 :: rat\<rfloor>" by simp
  then have "(3 / 2 :: rat) \<in> \<int>" by (metis Ints_of_int)
  then show False by simp
qed

text \<open>
  C3, as stated, fails: a \<open>Pro\<close> model set with the daily quota \<open>1.5\<close> is stored with it.
\<close>

theorem stored_daily_quota_counterexample:
  "models_config (setModelConfig_calls
       [(env_ok, ''m'', ''Pro'', QNumber (Finite (3 / 2)), QNull)] world_empty)
     = [\<lparr>mc_model_id = ''m'', mc_category = ''Pro'', mc_daily_quota = Some (Finite (3 / 2)),
          mc_individual_quota = None\<rparr>]
   \<and> \<not> num_isInteger (Finite (3 / 2))"
  using not_integer_three_halves
  by (simp add: setModelConfig_unfold runDb_def syncToGitHub_def sql_replace_model_def
        env_ok_def world_empty_def Let_def)

lemma integer_nonneg:
  assumes "num_isInteger n" and "\<not> num_lt_zero n"
  shows "\<exists>k::nat. n = Finite (of_nat k)"
proof (cases n)
  case (Finite q)
  with assms have q: "q = of_int \<lfloor>q\<rfloor>" "0 \<le> q" by simp_all
  then have "0 \<le> \<lfloor>q\<rfloor>" by simp
  then have "of_int \<lfloor>q\<rfloor> = (of_nat (nat \<lfloor>q\<rfloor>) :: rat)" by simp
  with q(1) Finite show ?thesis by metis
qed (use assms in simp_all)

lemma setModelConfig_rows:
  assumes "r \<in> set (models_config (snd (setModelConfig e m c d i w)))"
  shows "r \<in> set (models_config w) \<or> daily_quota_ok r"
proof -
  let ?new = "\<lparr>mc_model_id = m, mc_category = c, mc_daily_quota = quotaDb d,
               mc_individual_quota = quotaDb i\<rparr>"
  let ?daily = "(c = ''Custom'' \<and> quotaDb d \<noteq> None \<and> \<not> Number_isInteger (quotaDb d))
                \<or> lt_zero (quotaDb d)"
  let ?stored = "case runDb e (sql_replace_model m c (quotaDb d) (quotaDb i)) w of
                  (Inl err, w1) \<Rightarrow> (Inl err, w1)
                | (Inr r, w1) \<Rightarrow> syncToGitHub e w1"
  consider (thrown) "snd (setModelConfig e m c d i w) = w"
    | (written) "\<not> ?daily" "setModelConfig e m c d i w = ?stored"
    using setModelConfig_cases [where e=e and m=m and c=c and d=d and i=i and w=w] by auto
  then show ?thesis
  proof cases
    case thrown
    with assms show ?thesis by simp
  next
    case written
    have "set (models_config (snd ?stored)) \<subseteq> insert ?new (set (models_config w))"
      by (auto simp: runDb_def syncToGitHub_def sql_replace_model_def Let_def
               split: option.splits prod.splits)
    with assms written(2) have "r \<in> set (models_config w) \<or> r = ?new" by auto
    moreover have "daily_quota_ok ?new"
    proof (cases "quotaDb d")
      case None
      then show ?thesis by (simp add: daily_quota_ok_def)
    next
      case (Some n)
      with written(1) have "\<not> num_lt_zero n" "c = ''Custom'' \<longrightarrow> num_isInteger n" by auto
      with Some show ?thesis using integer_nonneg [of n] by (auto simp: daily_quota_ok_def)
    qed
    ultimately show ?thesis by auto
  qed
qed

text \<open>
  C3, amended. In every row reachable by \<open>setModelConfig\<close> calls from a store whose rows
  are so, the stored daily quota is \<open>null\<close> or a number that is not below zero, and in a row
  of category \<open>Custom\<close> it is \<open>null\<close> or a non-negative integer.
\<close>

theorem stored_daily_quota:
  assumes "\<forall>r \<in> set (models_config w). daily_quota_ok r"
  shows "\<forall>r \<in> set (models_config (setModelConfig_calls calls w)). daily_quota_ok r"
  using assms
proof (induction calls arbitrary: w)
  case Nil
  then show ?case by simp
next
  case (Cons call calls)
  obtain e m c d i where call: "call = (e, m, c, d, i)" by (cases call)
  have "\<forall>r \<in> set (models_config (snd (setModelConfig e m c d i w))). daily_quota_ok r"
    using Cons.prems setModelConfig_rows by blast
  from Cons.IH [OF this] show ?case by (simp add: call)
qed

theorem stored_daily_quota_witness:
  "models_config (setModelConfig_calls
       [(env_ok, ''c'', ''Custom'', QNumber (Finite 7), QNull)] world_empty)
     = [\<lparr>mc_model_id = ''c'', mc_category = ''Custom'', mc_daily_quota = Some (Finite 7),
          mc_individual_quota = None\<rparr>]
   \<and> \<not> num_lt_zero (Finite 7) \<and> (\<exists>k::nat. Finite 7 = Finite (of_nat k))"
proof -
  let ?row = "\<lparr>mc_model_id = ''c'', mc_category = ''Custom'', mc_daily_quota = Some (Finite 7),
               mc_individual_quota = None\<rparr>"
  have int7: "num_isInteger (Finite 7)"
    using of_int_floor_cancel [of "7 :: rat"] by simp
  have rows: "models_config (setModelConfig_calls
       [(env_ok, ''c'', ''Custom'', QNumber (Finite 7), QNull)] world_empty) = [?row]"
    using int7
    by (simp add: setModelConfig_unfold runDb_def syncToGitHub_def sql_replace_model_def
          env_ok_def world_empty_def Let_def)
  have h: "\<forall>r \<in> set (models_config world_empty). daily_quota_ok r"
    by (simp add: world_empty_def)
  from stored_daily_quota [OF h, of "[(env_ok, ''c'', ''Custom'', QNumber (Finite 7), QNull)]"]
  have "daily_quota_ok ?row" using rows by simp
  then show ?thesis using rows by (simp add: daily_quota_ok_def)
qed

section \<open>Worker keys\<close>

lemma getWorkerKeySafetySetting_result:
  "db_fault e = None \<Longrightarrow>
   fst (getWorkerKeySafetySetting e k w) =
     Inr (case find (\<lambda>r. wk_api_key r = k) (worker_keys w) of
            None \<Rightarrow> True
          | Some r \<Rightarrow> wk_safety_enabled r = JNum (Finite 1))"
  by (simp add: getWorkerKeySafetySetting_def getDb_def sql_select_worker_safety_def Let_def
           split: option.splits)

lemma find_absent: "k \<notin> f ` set rows \<Longrightarrow> find (\<lambda>r. f r = k) rows = None"
  by (induction rows) auto

lemma find_present:
  "k \<in> f ` set rows \<Longrightarrow> \<exists>r \<in> set rows. f r = k \<and> find (\<lambda>r. f r = k) rows = Some r"
  by (induction rows) auto

lemma find_unique:
  "distinct (map f rows) \<Longrightarrow> r \<in> set rows \<Longrightarrow> find (\<lambda>x. f x = f r) rows = Some r"
  by (induction rows) (auto simp: image_iff)

lemma map_key_update:
  "map wk_api_key (map (\<lambda>r. if P r then r\<lparr>wk_safety_enabled := s\<rparr> else r) rows)
     = map wk_api_key rows"
  by (induction rows) simp_all

lemma updateWorkerKeySafety_rows:
  assumes "fst (updateWorkerKeySafety e k s w) = Inr ()"
  shows "worker_keys (snd (updateWorkerKeySafety e k s w)) =
           map (\<lambda>r. if wk_api_key r = k
                     then r\<lparr>wk_safety_enabled := JNum (Finite (if truthy s then 1 else 0))\<rparr>
                     else r) (worker_keys w)
         \<and> k \<in> wk_api_key ` set (worker_keys w)"
proof (cases "db_fault e")
  case (Some cm)
  with assms show ?thesis
    by (cases cm) (simp add: updateWorkerKeySafety_def runDb_def Let_def)
next
  case None
  show ?thesis
  proof (cases "filter (\<lambda>r. wk_api_key r = k) (worker_keys w) = []")
    case True
    with None assms show ?thesis
      by (simp add: updateWorkerKeySafety_def runDb_def sql_update_worker_safety_def Let_def)
  next
    case False
    then have "k \<in> wk_api_key ` set (worker_keys w)"
      by (auto simp: filter_empty_conv)
    with None False show ?thesis
      by (simp add: updateWorkerKeySafety_def runDb_def sql_update_worker_safety_def Let_def
            syncToGitHub_result)
  qed
qed

text \<open>
  C7. \<open>getWorkerKeySafetySetting\<close> returns \<open>true\<close> for every key that has no stored row;
  and once \<open>updateWorkerKeySafety(k, false)\<close> has succeeded, it returns \<open>false\<close> for \<open>k\<close>
  (the reads being served by the driver).
\<close>

theorem safety_setting_default_and_update:
  "(db_fault e = None \<and> k \<notin> wk_api_key ` set (worker_keys w)
      \<longrightarrow> fst (getWorkerKeySafetySetting e k w) = Inr True)
   \<and> (fst (updateWorkerKeySafety e k (JBool False) w) = Inr () \<and> db_fault e' = None
      \<longrightarrow> fst (getWorkerKeySafetySetting e' k
                 (snd (updateWorkerKeySafety e k (JBool False) w))) = Inr False)"
proof (intro conjI impI)
  assume "db_fault e = None \<and> k \<notin> wk_api_key ` set (worker_keys w)"
  then show "fst (getWorkerKeySafetySetting e k w) = Inr True"
    by (simp add: getWorkerKeySafetySetting_result find_absent)
next
  let ?w' = "snd (updateWorkerKeySafety e k (JBool False) w)"
  let ?off = "\<lambda>r. if wk_api_key r = k then r\<lparr>wk_safety_enabled := JNum (Finite 0)\<rparr> else r"
  assume a: "fst (updateWorkerKeySafety e k (JBool False) w) = Inr () \<and> db_fault e' = None"
  from updateWorkerKeySafety_rows [of e k "JBool False" w] a
  have rows: "worker_keys ?w' = map ?off (worker_keys w)"
    and ex: "k \<in> wk_api_key ` set (worker_keys w)"
    by simp_all
  have "map wk_api_key (map ?off (worker_keys w)) = map wk_api_key (worker_keys w)"
    by (rule map_key_update)
  then have "set (map wk_api_key (worker_keys ?w')) = set (map wk_api_key (worker_keys w))"
    by (simp only: rows)
  then have "wk_api_key ` set (worker_keys ?w') = wk_api_key ` set (worker_keys w)"
    by (simp only: set_map)
  with ex have ex': "k \<in> wk_api_key ` set (worker_keys ?w')" by (simp only:)
  from find_present [OF ex']
  obtain r where r: "r \<in> set (worker_keys ?w')" "wk_api_key r = k"
    "find (\<lambda>r. wk_api_key r = k) (worker_keys ?w') = Some r"
    by blast
  from r(1) obtain r0 where r0: "r0 \<in> set (worker_keys w)" "r = ?off r0"
    by (auto simp only: rows set_map)
  have "wk_safety_enabled r = JNum (Finite 0)"
  proof (cases "wk_api_key r0 = k")
    case True
    with r0(2) show ?thesis by simp
  next
    case False
    with r0(2) r(2) show ?thesis by simp
  qed
  with r(3) a show "fst (getWorkerKeySafetySetting e' k ?w') = Inr False"
    by (simp add: getWorkerKeySafetySetting_result)
qed

theorem safety_setting_default_and_update_witness:
  "fst (getWorkerKeySafetySetting env_ok ''unknown'' world_K1) = Inr True
   \<and> fst (updateWorkerKeySafety env_ok ''K1'' (JBool False) world_K1) = Inr ()
   \<and> fst (getWorkerKeySafetySetting env_ok ''K1''
            (snd (updateWorkerKeySafety env_ok ''K1'' (JBool False) world_K1))) = Inr False"
proof -
  have h1: "db_fault env_ok = None \<and> ''unknown'' \<notin> wk_api_key ` set (worker_keys world_K1)"
    by (simp add: env_ok_def world_K1_def world_empty_def)
  have h2: "fst (updateWorkerKeySafety env_ok ''K1'' (JBool False) world_K1) = Inr ()
            \<and> db_fault env_ok = None"
    by (simp add: updateWorkerKeySafety_def runDb_def syncToGitHub_def
          sql_update_worker_safety_def env_ok_def world_K1_def world_empty_def Let_def)
  from safety_setting_default_and_update
         [of env_ok "''unknown''" world_K1 env_ok, THEN conjunct1, rule_format, OF h1]
       safety_setting_default_and_update
         [of env_ok "''K1''" world_K1 env_ok, THEN conjunct2, rule_format, OF h2]
       h2
  show ?thesis by simp
qed

text \<open>
  C10. When the row of \<open>apiKey\<close> exists and its stored \<open>safety_enabled\<close> is anything but the
  number \<open>1\<close> (\<open>0\<close> or \<open>null\<close>, say), \<open>getWorkerKeySafetySetting\<close> returns \<open>false\<close>; it
  returns \<open>true\<close> only when there is no row or the row holds \<open>1\<close>.
\<close>

theorem safety_setting_of_stored_row:
  assumes "db_fault e = None"
    and "distinct (map wk_api_key (worker_keys w))"
  shows "(\<forall>r \<in> set (worker_keys w).
            wk_api_key r = apiKey \<and> wk_safety_enabled r \<noteq> JNum (Finite 1)
            \<longrightarrow> fst (getWorkerKeySafetySetting e apiKey w) = Inr False)
         \<and> (fst (getWorkerKeySafetySetting e apiKey w) = Inr True
            \<longrightarrow> apiKey \<notin> wk_api_key ` set (worker_keys w)
                \<or> (\<exists>r \<in> set (worker_keys w).
                      wk_api_key r = apiKey \<and> wk_safety_enabled r = JNum (Finite 1)))"
proof -
  have uniq: "find (\<lambda>r. wk_api_key r = apiKey) (worker_keys w) = Some r"
    if "r \<in> set (worker_keys w)" "wk_api_key r = apiKey" for r
    using find_unique [OF assms(2) that(1)] that(2) by simp
  show ?thesis
  proof (intro conjI ballI impI)
    fix r assume "r \<in> set (worker_keys w)"
      "wk_api_key r = apiKey \<and> wk_safety_enabled r \<noteq> JNum (Finite 1)"
    then show "fst (getWorkerKeySafetySetting e apiKey w) = Inr False"
      using uniq [of r] assms(1) by (simp add: getWorkerKeySafetySetting_result)
  next
    assume t: "fst (getWorkerKeySafetySetting e apiKey w) = Inr True"
    show "apiKey \<notin> wk_api_key ` set (worker_keys w)
          \<or> (\<exists>r \<in> set (worker_keys w).
                wk_api_key r = apiKey \<and> wk_safety_enabled r = JNum (Finite 1))"
    proof (cases "apiKey \<in> wk_api_key ` set (worker_keys w)")
      case True
      from find_present [OF True] obtain r where
        "r \<in> set (worker_keys w)" "wk_api_key r = apiKey"
        "find (\<lambda>r. wk_api_key r = apiKey) (worker_keys w) = Some r" by blast
      with t assms(1) show ?thesis
        by (auto simp: getWorkerKeySafetySetting_result)
    next
      case False
      then show ?thesis by simp
    qed
  qed
qed

theorem safety_setting_of_stored_row_witness:
  "db_fault env_ok = None \<and> distinct (map wk_api_key (worker_keys world_K1_off))
   \<and> worker_keys world_K1_off =
       [\<lparr>wk_api_key = ''K1'', wk_description = JStr [], wk_safety_enabled = JNull,
         wk_created_at = ''2025-01-01 00:00:00''\<rparr>]
   \<and> JNull \<noteq> JNum (Finite 1)
   \<and> fst (getWorkerKeySafetySetting env_ok ''K1'' world_K1_off) = Inr False"
proof -
  let ?row = "\<lparr>wk_api_key = ''K1'', wk_description = JStr [], wk_safety_enabled = JNull,
               wk_created_at = ''2025-01-01 00:00:00''\<rparr>"
  have h1: "db_fault env_ok = None" by (simp add: env_ok_def)
  have rows: "worker_keys world_K1_off = [?row]"
    by (simp add: world_K1_off_def world_empty_def)
  have h2: "distinct (map wk_api_key (worker_keys world_K1_off))"
    by (simp add: rows)
  have h3: "?row \<in> set (worker_keys world_K1_off)" by (simp add: rows)
  have h4: "wk_api_key ?row = ''K1'' \<and> wk_safety_enabled ?row \<noteq> JNum (Finite 1)" by simp
  from safety_setting_of_stored_row
         [OF h1 h2, of "''K1''", THEN conjunct1, rule_format, OF h3 h4]
  have "fst (getWorkerKeySafetySetting env_ok ''K1'' world_K1_off) = Inr False" .
  with h1 h2 rows show ?thesis by simp
qed

section \<open>Adding a worker key\<close>










section \<open>Settings: what is stored and what is read back\<close>

lemma map_of_replaced:
  "map_of (filter (\<lambda>r. fst r \<noteq> k) rows @ [(k, v)]) k = Some v"
proof -
  have "map_of (filter (\<lambda>r. fst r \<noteq> k) rows) k = None"
    by (induction rows) auto
  then show ?thesis by (simp add: map_add_def)
qed

lemma map_of_replaced_other:
  "k' \<noteq> k \<Longrightarrow> map_of (filter (\<lambda>r. fst r \<noteq> k) rows @ [(k, v)]) k' = map_of rows k'"
  by (induction rows) (auto simp: map_add_def split: option.splits)

text \<open>The text that \<open>setSetting\<close> stores for a value.\<close>

lemma setSetting_stores:
  assumes "fst (setSetting e k v skipSync w) = Inr ()"
  shows "map_of (settings (snd (setSetting e k v skipSync w))) k =
           Some (if typeof v = ''object'' \<and> v \<noteq> JNull
                 then (case JSON_stringify e v of Some t \<Rightarrow> t | None \<Rightarrow> [])
                 else String_js e v)"
proof (cases "db_fault e")
  case (Some cm)
  with assms show ?thesis by (cases cm) (simp add: setSetting_def runDb_def Let_def)
next
  case None
  then show ?thesis
    by (simp add: setSetting_def runDb_def sql_replace_setting_def syncToGitHub_result Let_def
          map_of_replaced del: map_of_append)
qed

text \<open>What \<open>getSetting\<close> returns for a stored text.\<close>

lemma getSetting_stored:
  "db_fault e = None \<Longrightarrow> map_of (settings w) k = Some t \<Longrightarrow>
   fst (getSetting e k dflt w) = Inr (case JSON_parse e t of None \<Rightarrow> JStr t | Some x \<Rightarrow> x)"
  by (simp add: getSetting_def getDb_def sql_select_setting_def Let_def split: option.splits)

lemma getSetting_absent:
  "db_fault e = None \<Longrightarrow> map_of (settings w) k = None \<Longrightarrow>
   fst (getSetting e k dflt w) = Inr (if dflt = JUndefined then JNull else dflt)"
  by (simp add: getSetting_def getDb_def sql_select_setting_def Let_def)

lemma stringify_object:
  "typeof v = ''object'' \<Longrightarrow> v \<noteq> JNull \<Longrightarrow>
   (case JSON_stringify e v of Some t \<Rightarrow> t | None \<Rightarrow> [])
     = element_text (SerializeJSONProperty e v)"
  by (cases v) (simp_all add: JSON_stringify_def element_text_def)

text \<open>
  C4, as stated, fails on both counts: the string \<open>true\<close> is read back as the boolean
  \<open>true\<close>, and the object \<open>{limit: Infinity}\<close> is read back as \<open>{limit: null}\<close>.
\<close>

theorem setSetting_getSetting_counterexample:
  "fst (getSetting env_ok ''k'' JNull
          (snd (setSetting env_ok ''k'' (JStr ''true'') False world_empty)))
     = Inr (JBool True)
   \<and> fst (getSetting env_ok ''k'' JNull
          (snd (setSetting env_ok ''k'' (JObj [(''limit'', JNum PosInf)]) False world_empty)))
     = Inr (JObj [(''limit'', JNull)])"
proof -
  have nf: "db_fault env_ok = None" by (simp add: env_ok_def)
  have ok: "fst (setSetting env_ok ''k'' v False world_empty) = Inr ()" for v
    by (simp add: setSetting_def runDb_def sql_replace_setting_def syncToGitHub_result
          env_ok_def Let_def)
  have p1: "JSON_parse env_ok (String_js env_ok (JStr ''true'')) = Some (JBool True)"
    by code_simp
  have p2: "JSON_parse env_ok
              (case JSON_stringify env_ok (JObj [(''limit'', JNum PosInf)]) of
                 Some t \<Rightarrow> t | None \<Rightarrow> [])
            = Some (JObj [(''limit'', JNull)])"
    by code_simp
  show ?thesis
    using getSetting_stored [OF nf setSetting_stores [OF ok [of "JStr ''true''"]], of JNull]
      getSetting_stored
        [OF nf setSetting_stores [OF ok [of "JObj [(''limit'', JNum PosInf)]"]], of JNull]
      p1 p2
    by simp
qed

text \<open>
  C4, amended. After a \<open>setSetting(k, v)\<close> that returned, \<open>getSetting(k, null)\<close> (its read
  served by the driver) returns \<open>v\<close> itself when \<open>v\<close> is an array or object that holds
  JSON data only: objects, arrays, strings, booleans, \<open>null\<close> and finite numbers, with no
  \<open>undefined\<close>, \<open>NaN\<close> or infinity inside. When \<open>v\<close> is a string \<open>s\<close> it returns \<open>s\<close> if
  \<open>s\<close> is not JSON text, and the value that \<open>s\<close> denotes if it is.
\<close>

theorem setSetting_getSetting_round_trip:
  assumes "fst (setSetting e k v skipSync w) = Inr ()" and "db_fault e' = None"
  shows "(typeof v = ''object'' \<and> v \<noteq> JNull \<and> json_representable is_exact_number v
            \<longrightarrow> fst (getSetting e' k JNull (snd (setSetting e k v skipSync w))) = Inr v)
         \<and> (\<forall>s. v = JStr s
            \<longrightarrow> fst (getSetting e' k JNull (snd (setSetting e k v skipSync w)))
                  = Inr (case JSON_parse e' s of None \<Rightarrow> JStr s | Some parsed \<Rightarrow> parsed))"
proof (intro conjI allI impI)
  assume a: "typeof v = ''object'' \<and> v \<noteq> JNull \<and> json_representable is_exact_number v"
  then have stored: "map_of (settings (snd (setSetting e k v skipSync w))) k
               = Some (element_text (SerializeJSONProperty e v))"
    using setSetting_stores [OF assms(1)] stringify_object [of v e] by simp
  from a have "json_representable (number_round_trips e e') v"
    using json_representable_mono [of is_exact_number "number_round_trips e e'" v]
      exact_number_round_trips [of _ e e']
    by blast
  then have "JSON_parse e' (element_text (SerializeJSONProperty e v)) = Some v"
    by (rule JSON_parse_stringify)
  with getSetting_stored [OF assms(2) stored, of JNull]
  show "fst (getSetting e' k JNull (snd (setSetting e k v skipSync w))) = Inr v"
    by (simp only: option.case)
next
  fix s assume "v = JStr s"
  then have "map_of (settings (snd (setSetting e k v skipSync w))) k = Some s"
    using setSetting_stores [OF assms(1)] by simp
  from getSetting_stored [OF assms(2) this, of JNull]
  show "fst (getSetting e' k JNull (snd (setSetting e k v skipSync w)))
          = Inr (case JSON_parse e' s of None \<Rightarrow> JStr s | Some parsed \<Rightarrow> parsed)" .
qed

theorem setSetting_getSetting_round_trip_witness:
  "fst (setSetting env_ok ''github_config'' github_value False world_empty) = Inr ()
   \<and> db_fault env_ok = None
   \<and> typeof github_value = ''object'' \<and> github_value \<noteq> JNull
   \<and> json_representable is_exact_number github_value
   \<and> fst (getSetting env_ok ''github_config'' JNull
            (snd (setSetting env_ok ''github_config'' github_value False world_empty)))
       = Inr github_value
   \<and> fst (getSetting env_ok ''motd'' JNull
            (snd (setSetting env_ok ''motd'' (JStr ''hello'') False world_empty)))
       = Inr (JStr ''hello'')"
proof -
  have nf: "db_fault env_ok = None" by (simp add: env_ok_def)
  have ok: "fst (setSetting env_ok key v False world_empty) = Inr ()" for key v
    by (simp add: setSetting_def runDb_def sql_replace_setting_def syncToGitHub_result
          env_ok_def Let_def)
  have obj: "typeof github_value = ''object'' \<and> github_value \<noteq> JNull
              \<and> json_representable is_exact_number github_value"
    by code_simp
  have hello: "JSON_parse env_ok ''hello'' = None" by code_simp
  note r1 = setSetting_getSetting_round_trip
              [OF ok nf, where k = "''github_config''" and v = github_value,
               THEN conjunct1, rule_format, OF obj]
  note r2 = setSetting_getSetting_round_trip
              [OF ok nf, where k = "''motd''" and v = "JStr ''hello''",
               THEN conjunct2, rule_format, OF refl]
  from ok [of "''github_config''" github_value] nf obj r1 r2 hello
  show ?thesis by simp
qed

text \<open>
  The texts of some numbers that are not safe integers, and the text stored for the
  object above.
\<close>

lemma Number_toString_examples:
  "Number_toString e (Finite (1/2)) = ''0.5''"
  "Number_toString e (Finite (- 5/4)) = ''-1.25''"
  "Number_toString e (Finite (1/10^7)) = ''1e-7''"
  "Number_toString e (Finite (10^21)) = ''1e+21''"
  "Number_toString e (Finite (3/10^6)) = ''0.000003''"
  by code_simp+

lemma stored_github_value:
  "JSON_stringify e github_value
     = Some (''{'' @ QuoteJSONString ''repo'' @ '':'' @ QuoteJSONString ''user/mirror''
             @ '','' @ QuoteJSONString ''retries'' @ '':3,'' @ QuoteJSONString ''rate''
             @ '':0.5,'' @ QuoteJSONString ''flags'' @ '':[true,null]}'')"
  by code_simp

section \<open>Category quotas\<close>

lemma typeof_number: "typeof v = ''number'' \<longleftrightarrow> (\<exists>n. v = JNum n)"
  by (cases v) simp_all

lemma getCategoryQuotas_of_setting:
  assumes "fst (getSetting e ''category_quotas'' default_category_quotas w) = Inr quotas"
  shows "fst (getCategoryQuotas e w) =
           Inr (JObj
             [(''proQuota'',
               if typeof (get_property quotas ''proQuota'') = ''number''
               then get_property quotas ''proQuota'' else JNum (Finite 50)),
              (''flashQuota'',
               if typeof (get_property quotas ''flashQuota'') = ''number''
               then get_property quotas ''flashQuota'' else JNum (Finite 1500))])"
  using assms
  by (cases "getSetting e ''category_quotas'' default_category_quotas w")
     (simp add: getCategoryQuotas_def)

text \<open>
  C8. \<open>getCategoryQuotas\<close> returns \<open>{proQuota: 50, flashQuota: 1500}\<close> when no
  \<open>category_quotas\<close> row is stored; and when the stored text denotes an object one of whose
  two fields is not a number, that field alone is replaced by its default and the other
  keeps its stored number.
\<close>

theorem getCategoryQuotas_fallback:
  assumes "db_fault e = None"
  shows "(map_of (settings w) ''category_quotas'' = None
            \<longrightarrow> fst (getCategoryQuotas e w)
                  = Inr (JObj [(''proQuota'', JNum (Finite 50)),
                               (''flashQuota'', JNum (Finite 1500))]))
         \<and> (\<forall>t kvs f.
               map_of (settings w) ''category_quotas'' = Some t
               \<and> JSON_parse e t = Some (JObj kvs)
               \<and> map_of kvs ''flashQuota'' = Some (JNum f)
               \<and> (\<forall>p. map_of kvs ''proQuota'' \<noteq> Some (JNum p))
            \<longrightarrow> fst (getCategoryQuotas e w)
                  = Inr (JObj [(''proQuota'', JNum (Finite 50)), (''flashQuota'', JNum f)]))
         \<and> (\<forall>t kvs p.
               map_of (settings w) ''category_quotas'' = Some t
               \<and> JSON_parse e t = Some (JObj kvs)
               \<and> map_of kvs ''proQuota'' = Some (JNum p)
               \<and> (\<forall>f. map_of kvs ''flashQuota'' \<noteq> Some (JNum f))
            \<longrightarrow> fst (getCategoryQuotas e w)
                  = Inr (JObj [(''proQuota'', JNum p), (''flashQuota'', JNum (Finite 1500))]))"
proof (intro conjI allI impI)
  assume "map_of (settings w) ''category_quotas'' = None"
  from getSetting_absent [OF assms this, of default_category_quotas]
  have "fst (getSetting e ''category_quotas'' default_category_quotas w)
          = Inr default_category_quotas"
    by (simp add: default_category_quotas_def)
  from getCategoryQuotas_of_setting [OF this]
  show "fst (getCategoryQuotas e w)
          = Inr (JObj [(''proQuota'', JNum (Finite 50)), (''flashQuota'', JNum (Finite 1500))])"
    by (simp add: default_category_quotas_def)
next
  fix t kvs f
  assume a: "map_of (settings w) ''category_quotas'' = Some t
             \<and> JSON_parse e t = Some (JObj kvs)
             \<and> map_of kvs ''flashQuota'' = Some (JNum f)
             \<and> (\<forall>p. map_of kvs ''proQuota'' \<noteq> Some (JNum p))"
  then have "fst (getSetting e ''category_quotas'' default_category_quotas w) = Inr (JObj kvs)"
    using getSetting_stored [OF assms, of w "''category_quotas''" t default_category_quotas]
    by simp
  from getCategoryQuotas_of_setting [OF this] a
  show "fst (getCategoryQuotas e w)
          = Inr (JObj [(''proQuota'', JNum (Finite 50)), (''flashQuota'', JNum f)])"
    by (auto simp: typeof_number split: option.splits)
next
  fix t kvs p
  assume a: "map_of (settings w) ''category_quotas'' = Some t
             \<and> JSON_parse e t = Some (JObj kvs)
             \<and> map_of kvs ''proQuota'' = Some (JNum p)
             \<and> (\<forall>f. map_of kvs ''flashQuota'' \<noteq> Some (JNum f))"
  then have "fst (getSetting e ''category_quotas'' default_category_quotas w) = Inr (JObj kvs)"
    using getSetting_stored [OF assms, of w "''category_quotas''" t default_category_quotas]
    by simp
  from getCategoryQuotas_of_setting [OF this] a
  show "fst (getCategoryQuotas e w)
          = Inr (JObj [(''proQuota'', JNum p), (''flashQuota'', JNum (Finite 1500))])"
    by (auto simp: typeof_number split: option.splits)
qed

theorem getCategoryQuotas_fallback_witness:
  "db_fault env_ok = None
   \<and> map_of (settings world_empty) ''category_quotas'' = None
   \<and> fst (getCategoryQuotas env_ok world_empty)
       = Inr (JObj [(''proQuota'', JNum (Finite 50)), (''flashQuota'', JNum (Finite 1500))])
   \<and> map_of (settings world_partial_quotas) ''category_quotas'' = Some partial_quotas_text
   \<and> JSON_parse env_ok partial_quotas_text
       = Some (JObj [(''proQuota'', JStr ''x''), (''flashQuota'', JNum (Finite 7))])
   \<and> fst (getCategoryQuotas env_ok world_partial_quotas)
       = Inr (JObj [(''proQuota'', JNum (Finite 50)), (''flashQuota'', JNum (Finite 7))])"
proof -
  let ?kvs = "[(''proQuota'', JStr ''x''), (''flashQuota'', JNum (Finite 7))]"
  have nf: "db_fault env_ok = None" by (simp add: env_ok_def)
  have none: "map_of (settings world_empty) ''category_quotas'' = None"
    by (simp add: world_empty_def)
  have stored: "map_of (settings world_partial_quotas) ''category_quotas''
                  = Some partial_quotas_text"
    by (simp add: world_partial_quotas_def world_empty_def)
  have parsed: "JSON_parse env_ok partial_quotas_text = Some (JObj ?kvs)"
    by code_simp
  have fields: "map_of ?kvs ''flashQuota'' = Some (JNum (Finite 7))
                \<and> (\<forall>p. map_of ?kvs ''proQuota'' \<noteq> Some (JNum p))"
    by simp
  note d = getCategoryQuotas_fallback [OF nf, of world_empty, THEN conjunct1, rule_format, OF none]
  note p = getCategoryQuotas_fallback
             [OF nf, of world_partial_quotas, THEN conjunct2, THEN conjunct1, rule_format,
              of partial_quotas_text ?kvs "Finite 7"]
  from nf none stored parsed fields d p show ?thesis by simp
qed

lemma setCategoryQuotas_rejects:
  assumes "\<not> (\<exists>p f. proQuota = JNum p \<and> flashQuota = JNum f
                     \<and> \<not> num_lt_zero p \<and> \<not> num_lt_zero f)"
  shows "setCategoryQuotas e proQuota flashQuota w = (Inl (Error quotas_message), w)"
  using assms by (auto simp: setCategoryQuotas_def split: jsval.splits)

lemma setCategoryQuotas_round_trip:
  assumes "fst (setCategoryQuotas e (JNum (Finite a)) (JNum (Finite b)) w) = Inr ()"
    and "db_fault e' = None"
    and "is_safe_integer (of_int \<lfloor>a\<rfloor>)" and "is_safe_integer (of_int \<lfloor>b\<rfloor>)"
  shows "fst (getCategoryQuotas e'
                (snd (setCategoryQuotas e (JNum (Finite a)) (JNum (Finite b)) w)))
           = Inr (JObj [(''proQuota'', JNum (Finite (of_int \<lfloor>a\<rfloor>))),
                        (''flashQuota'', JNum (Finite (of_int \<lfloor>b\<rfloor>)))])"
proof -
  let ?v = "JObj [(''proQuota'', JNum (Finite (of_int \<lfloor>a\<rfloor>))),
                  (''flashQuota'', JNum (Finite (of_int \<lfloor>b\<rfloor>)))]"
  have neg: "\<not> (a < 0 \<or> b < 0)"
    using assms(1) by (auto simp: setCategoryQuotas_def split: if_splits)
  then have eq: "setCategoryQuotas e (JNum (Finite a)) (JNum (Finite b)) w
                   = setSetting e ''category_quotas'' ?v False w"
    by (simp add: setCategoryQuotas_def)
  have rep: "typeof ?v = ''object'' \<and> ?v \<noteq> JNull
             \<and> json_representable (number_round_trips e e') ?v"
    using assms(3,4) by (simp add: safe_integer_round_trips)
  from assms(1) have ok: "fst (setSetting e ''category_quotas'' ?v False w) = Inr ()"
    by (simp add: eq)
  from setSetting_stores [OF ok] rep
  have "map_of (settings (snd (setSetting e ''category_quotas'' ?v False w))) ''category_quotas''
          = Some (element_text (SerializeJSONProperty e ?v))"
    using stringify_object [of ?v e] by simp
  moreover have "JSON_parse e' (element_text (SerializeJSONProperty e ?v)) = Some ?v"
    using rep by (intro JSON_parse_stringify) simp
  ultimately
  have "fst (getSetting e' ''category_quotas'' default_category_quotas
               (snd (setSetting e ''category_quotas'' ?v False w))) = Inr ?v"
    using getSetting_stored [OF assms(2), of _ "''category_quotas''" _ default_category_quotas]
    by (simp only: option.case)
  from getCategoryQuotas_of_setting [OF this] show ?thesis
    by (simp add: eq)
qed

text \<open>
  C5. \<open>setCategoryQuotas\<close> is to fail unless both arguments are numbers and at least
  zero. \<open>NaN\<close> is a number and is not at least zero, yet \<open>setCategoryQuotas(NaN, 10)\<close>
  returns without error, having stored the text \<open>{"proQuota":null,"flashQuota":10}\<close>, from
  which \<open>getCategoryQuotas\<close> reads the default 50.
\<close>

theorem setCategoryQuotas_accepts_NaN:
  "setCategoryQuotas env_ok (JNum NaN) (JNum (Finite 10)) world_empty
     = (Inr (), world_empty\<lparr>settings := [(''category_quotas'', null_quota_text)],
                             trace := [Storage, Sync]\<rparr>)
   \<and> fst (getCategoryQuotas env_ok
            (snd (setCategoryQuotas env_ok (JNum NaN) (JNum (Finite 10)) world_empty)))
       = Inr (JObj [(''proQuota'', JNum (Finite 50)), (''flashQuota'', JNum (Finite 10))])"
proof -
  let ?w = "world_empty\<lparr>settings := [(''category_quotas'', null_quota_text)],
                         trace := [Storage, Sync]\<rparr>"
  have nf: "db_fault env_ok = None" by (simp add: env_ok_def)
  have stored_text: "(case JSON_stringify env_ok
                 (JObj [(''proQuota'', JNum NaN), (''flashQuota'', JNum (Finite 10))]) of
                 Some t \<Rightarrow> t | None \<Rightarrow> []) = null_quota_text"
    by code_simp
  have ten: "\<lfloor>10 :: rat\<rfloor> = 10" by simp
  have res: "setCategoryQuotas env_ok (JNum NaN) (JNum (Finite 10)) world_empty = (Inr (), ?w)"
    using stored_text
    by (simp add: setCategoryQuotas_def setSetting_def runDb_def sql_replace_setting_def
          syncToGitHub_def env_ok_def world_empty_def Let_def ten)
  have parsed: "JSON_parse env_ok null_quota_text
                  = Some (JObj [(''proQuota'', JNull), (''flashQuota'', JNum (Finite 10))])"
    by code_simp
  have stored: "map_of (settings ?w) ''category_quotas'' = Some null_quota_text"
    by simp
  from getSetting_stored [OF nf stored, of default_category_quotas] parsed
  have "fst (getSetting env_ok ''category_quotas'' default_category_quotas ?w)
          = Inr (JObj [(''proQuota'', JNull), (''flashQuota'', JNum (Finite 10))])"
    by simp
  from getCategoryQuotas_of_setting [OF this] res show ?thesis by simp
qed

end
